theory Spec2Isabelle
  imports Main "HOL-Library.Char_ord" "HOL-Library.List_Lexorder" "HOL-Library.AList"
begin

unbundle bit_operations_syntax

section \<open>Explorer Shell: a shallow embedding of main.cpp\<close>

text \<open>
  The program keeps three globals (\<open>currentUser\<close>, \<open>sudoMode\<close>, \<open>permissions\<close>) and
  talks to the host filesystem through \<open>std::filesystem\<close>. The embedding threads one
  state record through every command. What C++ leaves to an uncaught exception or to
  undefined behaviour is a value of type \<open>failure\<close>.
\<close>

subsection \<open>Strings and the permission map\<close>

datatype failure =
    Uncaught_filesystem_error  \<comment> \<open>a \<open>fs::filesystem_error\<close> nobody catches: \<open>std::terminate\<close>\<close>
  | Undefined_behaviour        \<comment> \<open>\<open>std::string::operator[]\<close> with \<open>pos > size()\<close>\<close>

text \<open>
  \<open>std::string::operator[](pos)\<close>: the character at \<open>pos\<close>; with \<open>pos = size()\<close> a
  reference to the terminating NUL; beyond that the behaviour is undefined.
\<close>

definition string_at :: "string \<Rightarrow> nat \<Rightarrow> failure + char" where
  "string_at s pos =
     (if pos < length s then Inr (s ! pos)
      else if pos = length s then Inr (CHR 0x00)
      else Inl Undefined_behaviour)"

text \<open>
  \<open>std::map<std::string, std::string>\<close> iterates in ascending key order, and
  \<open>std::string\<close> compares bytes lexicographically as unsigned values. The map is
  modelled by its in-order sequence of entries.
\<close>

type_synonym store = "(string \<times> string) list"

text \<open>\<open>permissions.count(k)\<close>, as the truth value the code tests.\<close>

definition map_count :: "string \<Rightarrow> store \<Rightarrow> bool" where
  "map_count k m = (map_of m k \<noteq> None)"

text \<open>\<open>permissions[k] = v\<close>: overwrite the entry of \<open>k\<close>, or insert it at its place.\<close>

fun map_assign :: "string \<Rightarrow> string \<Rightarrow> store \<Rightarrow> store" where
  "map_assign k v [] = [(k, v)]"
| "map_assign k v ((k', v') # m) =
     (if k = k' then (k, v) # m
      else if k < k' then (k, v) # (k', v') # m
      else (k', v') # map_assign k v m)"

text \<open>
  \<open>permissions[k]\<close> read as a value: \<open>operator[]\<close> inserts an entry with the empty
  string when \<open>k\<close> is absent, and returns the mapped value.
\<close>

definition map_subscript :: "string \<Rightarrow> store \<Rightarrow> string \<times> store" where
  "map_subscript k m =
     (case map_of m k of
        Some v \<Rightarrow> (v, m)
      | None \<Rightarrow> ([], map_assign k [] m))"

text \<open>\<open>permissions.erase(k)\<close>.\<close>

definition map_erase :: "string \<Rightarrow> store \<Rightarrow> store" where
  "map_erase k m = filter (\<lambda>e. fst e \<noteq> k) m"

text \<open>The representation invariant of the map: keys strictly ascending.\<close>

definition ordered_store :: "store \<Rightarrow> bool" where
  "ordered_store m = sorted_wrt (<) (map fst m)"

definition PERM_FILE :: string where
  "PERM_FILE = ''.permissions.txt''"

definition fallback :: string where
  "fallback = ''-rw-r--r--''"

text \<open>
  \<open>getPermission\<close>. The result carries the map as well, since \<open>permissions[file]\<close>
  is the inserting subscript; it is only reached when the key is present.
\<close>

definition getPermission :: "string \<Rightarrow> store \<Rightarrow> string \<times> store" where
  "getPermission file m =
     (if map_count file m then map_subscript file m else (fallback, m))"

subsection \<open>Formatted input: whitespace-separated tokens\<close>

text \<open>
  \<open>operator>>\<close> into a \<open>std::string\<close> in the classic locale: skip leading white space
  (space, \<open>\t\<close>, \<open>\n\<close>, \<open>\v\<close>, \<open>\f\<close>, \<open>\r\<close>), then take characters up to the next white
  space or the end. With no character to take the extraction fails, and every later
  extraction on the same stream fails too.
\<close>

definition isspace :: "char \<Rightarrow> bool" where
  "isspace c = (c = CHR '' '' \<or> c = CHR 0x09 \<or> c = CHR 0x0A \<or> c = CHR 0x0B
                \<or> c = CHR 0x0C \<or> c = CHR 0x0D)"

definition extract_token :: "string \<Rightarrow> (string \<times> string) option" where
  "extract_token inp =
     (let rest = dropWhile isspace inp
      in if rest = [] then None
         else Some (takeWhile (\<lambda>c. \<not> isspace c) rest, dropWhile (\<lambda>c. \<not> isspace c) rest))"

subsection \<open>Load and save\<close>

text \<open>The loop \<open>while (fin >> file >> perm) permissions[file] = perm;\<close>\<close>

function loadLoop :: "string \<Rightarrow> store \<Rightarrow> store" where
  "loadLoop inp m =
     (case extract_token inp of
        None \<Rightarrow> m
      | Some (file, rest) \<Rightarrow>
          (case extract_token rest of
             None \<Rightarrow> m
           | Some (perm, rest') \<Rightarrow> loadLoop rest' (map_assign file perm m)))"
  by pat_completeness auto
termination
proof (relation "measure (\<lambda>(inp, m). length inp)")
  show "wf (measure (\<lambda>(inp, m). length inp))" by simp
next
  fix inp :: string and m :: store and x2 x y x2a xa ya
  assume a: "extract_token inp = Some x2" "(x, y) = x2" "extract_token y = Some x2a" "(xa, ya) = x2a"
  have shorter: "length rest < length s" if e: "extract_token s = Some (w, rest)" for s w rest
  proof -
    let ?r = "dropWhile isspace s"
    from e have ne: "?r \<noteq> []" and r: "rest = dropWhile (\<lambda>c. \<not> isspace c) ?r"
      by (simp_all add: extract_token_def Let_def split: if_splits)
    from ne have "\<not> isspace (hd ?r)"
      using hd_dropWhile by blast
    with ne have "length (dropWhile (\<lambda>c. \<not> isspace c) ?r) < length ?r"
      by (cases ?r) (auto simp: less_Suc_eq_le length_dropWhile_le)
    moreover have "length ?r \<le> length s"
      by (rule length_dropWhile_le)
    ultimately show ?thesis using r by simp
  qed
  from a have "length y < length inp" "length ya < length y"
    using shorter by metis+
  then show "((ya, map_assign x xa m), (inp, m)) \<in> measure (\<lambda>(inp, m). length inp)"
    by simp
qed

declare loadLoop.simps [simp del]

text \<open>The text \<open>savePermissions\<close> streams out: one \<open>name permission\<close> line per entry.\<close>

definition saved_text :: "store \<Rightarrow> string" where
  "saved_text m = concat (map (\<lambda>p. fst p @ '' '' @ snd p @ [CHR 0x0A]) m)"

subsection \<open>The host filesystem\<close>

text \<open>
  The filesystem is a table from absolute paths (lists of component names below the
  root) to what sits there: a regular file with its bytes, or a directory. The root
  itself is a directory. The process has a current directory, which it can lose: a
  command may remove the very directory it runs in.

  Names are resolved as Linux resolves them, component by component: the empty
  component and \<open>.\<close> stay, \<open>..\<close> steps to the parent, a component of more than
  \<open>NAME_MAX\<close> bytes or a name of \<open>PATH_MAX\<close> bytes or more is \<open>ENAMETOOLONG\<close>, a
  missing component is \<open>ENOENT\<close>, a regular file in the middle of a name is
  \<open>ENOTDIR\<close>. Symbolic and hard links, mount points, the access rights of the host and
  failing devices are not modelled.
\<close>

datatype entry = Regular string | Directory

type_synonym path = "string list"

type_synonym table = "(path \<times> entry) list"

definition NAME_MAX :: nat where
  "NAME_MAX = 255"

definition PATH_MAX :: nat where
  "PATH_MAX = 4096"

definition entry_at :: "table \<Rightarrow> path \<Rightarrow> entry option" where
  "entry_at t p = (if p = [] then Some Directory else map_of t p)"

text \<open>The names of the entries of the directory at \<open>p\<close>.\<close>

definition children :: "table \<Rightarrow> path \<Rightarrow> string list" where
  "children t p = map last (filter (\<lambda>q. q \<noteq> [] \<and> butlast q = p) (map fst t))"

text \<open>The components of a name: what stands between the separators.\<close>

fun split_path :: "string \<Rightarrow> string list" where
  "split_path [] = [[]]"
| "split_path (c # cs) =
     (if c = CHR ''/'' then [] # split_path cs
      else case split_path cs of
        w # ws \<Rightarrow> (c # w) # ws
      | [] \<Rightarrow> [[c]])"

text \<open>
  The outcome of resolving a name. \<open>Found p e\<close>: the name leads to \<open>e\<close> at \<open>p\<close>.
  \<open>Missing p slash\<close>: everything but the last component leads to a directory, which
  has no entry of the last component; \<open>p\<close> is where it would be, and \<open>slash\<close> says
  that separators follow it in the name.
\<close>

datatype lookup =
    Found path entry
  | Missing path bool
  | No_entry         \<comment> \<open>\<open>ENOENT\<close>\<close>
  | Not_directory    \<comment> \<open>\<open>ENOTDIR\<close>\<close>
  | Too_long         \<comment> \<open>\<open>ENAMETOOLONG\<close>\<close>

fun walk :: "table \<Rightarrow> path \<Rightarrow> string list \<Rightarrow> lookup" where
  "walk t cur [] = Found cur Directory"
| "walk t cur (c # cs) =
     (if c = [] \<or> c = ''.'' then walk t cur cs
      else if c = ''..''
        then (if entry_at t (butlast cur) = Some Directory then walk t (butlast cur) cs
              else No_entry)
      else if NAME_MAX < length c then Too_long
      else case entry_at t (cur @ [c]) of
        None \<Rightarrow> (if filter (\<lambda>x. x \<noteq> []) cs = [] then Missing (cur @ [c]) (cs \<noteq> [])
                 else No_entry)
      | Some (Regular bytes) \<Rightarrow>
          (if cs = [] then Found (cur @ [c]) (Regular bytes) else Not_directory)
      | Some Directory \<Rightarrow> walk t (cur @ [c]) cs)"

text \<open>
  The system calls take a name as a C string (\<open>fs::path::c_str\<close>): it ends at its
  first NUL byte.
\<close>

definition c_str :: "string \<Rightarrow> string" where
  "c_str name = takeWhile (\<lambda>c. c \<noteq> CHR 0x00) name"

text \<open>
  A relative name starts at the current directory. Once that directory is removed
  nothing can be created or opened below it; the one lookup the program still makes
  then is the open of \<open>savePermissions\<close>, and the next prompt ends the run
  (\<open>lost_directory_aborts\<close>).
\<close>

definition resolve :: "table \<Rightarrow> path option \<Rightarrow> string \<Rightarrow> lookup" where
  "resolve t wd name =
     (if c_str name = [] then No_entry
      else if PATH_MAX \<le> length (c_str name) then Too_long
      else case (if hd (c_str name) = CHR ''/'' then Some [] else wd) of
        None \<Rightarrow> No_entry
      | Some start \<Rightarrow>
          (if entry_at t start = Some Directory then walk t start (split_path (c_str name))
           else No_entry))"

text \<open>
  A name whose last component is \<open>.\<close> or \<open>..\<close>, or that has no component at all (the
  root): \<open>rmdir\<close> and \<open>rename\<close> refuse it (\<open>EINVAL\<close>, \<open>ENOTEMPTY\<close>, \<open>EBUSY\<close>).
\<close>

definition dotty :: "string list \<Rightarrow> bool" where
  "dotty cs =
     (case filter (\<lambda>x. x \<noteq> []) cs of
        [] \<Rightarrow> True
      | xs \<Rightarrow> last xs = ''.'' \<or> last xs = ''..'')"

definition dot_name :: "string \<Rightarrow> bool" where
  "dot_name name = dotty (split_path (c_str name))"


datatype 'a call = Throws | Returns 'a

text \<open>
  \<open>fs::exists\<close> and \<open>fs::is_directory\<close> go through \<open>fs::status\<close>, which takes
  \<open>ENOENT\<close> and \<open>ENOTDIR\<close> for "not found" and throws on every other error.
\<close>

definition fs_exists :: "table \<Rightarrow> path option \<Rightarrow> string \<Rightarrow> bool call" where
  "fs_exists t wd name =
     (case resolve t wd name of
        Found p e \<Rightarrow> Returns True
      | Too_long \<Rightarrow> Throws
      | _ \<Rightarrow> Returns False)"

definition fs_is_directory :: "table \<Rightarrow> path option \<Rightarrow> string \<Rightarrow> bool call" where
  "fs_is_directory t wd name =
     (case resolve t wd name of
        Found p Directory \<Rightarrow> Returns True
      | Too_long \<Rightarrow> Throws
      | _ \<Rightarrow> Returns False)"

text \<open>\<open>fs::is_empty\<close>: a directory without entries or a file of size zero.\<close>

definition fs_is_empty :: "table \<Rightarrow> path option \<Rightarrow> string \<Rightarrow> bool call" where
  "fs_is_empty t wd name =
     (case resolve t wd name of
        Found p Directory \<Rightarrow> Returns (children t p = [])
      | Found p (Regular bytes) \<Rightarrow> Returns (bytes = [])
      | _ \<Rightarrow> Throws)"

text \<open>
  \<open>fs::remove\<close>, that is \<open>remove\<close> of the C library: \<open>unlink\<close> for a file, \<open>rmdir\<close> for
  a directory. \<open>false\<close> when there is nothing of that name; an error on a directory
  that has entries and on a name that ends in \<open>.\<close> or \<open>..\<close>. Removing the current
  directory leaves the process without one.
\<close>

definition fs_remove ::
  "table \<Rightarrow> path option \<Rightarrow> string \<Rightarrow> (bool \<times> table \<times> path option) call" where
  "fs_remove t wd name =
     (case resolve t wd name of
        Found p (Regular bytes) \<Rightarrow> Returns (True, AList.delete p t, wd)
      | Found p Directory \<Rightarrow>
          (if dot_name name \<or> children t p \<noteq> [] then Throws
           else Returns (True, AList.delete p t, if wd = Some p then None else wd))
      | Missing p slash \<Rightarrow> Returns (False, t, wd)
      | No_entry \<Rightarrow> Returns (False, t, wd)
      | Not_directory \<Rightarrow> Throws
      | Too_long \<Rightarrow> Throws)"

text \<open>
  \<open>fs::create_directory\<close>: \<open>true\<close> when \<open>mkdir\<close> made the directory, \<open>false\<close> when
  \<open>mkdir\<close> failed and a directory of that name is there; every other failure of
  \<open>mkdir\<close> is an error.
\<close>

definition fs_create_directory :: "table \<Rightarrow> path option \<Rightarrow> string \<Rightarrow> (bool \<times> table) call" where
  "fs_create_directory t wd name =
     (case resolve t wd name of
        Missing p slash \<Rightarrow> Returns (True, AList.update p Directory t)
      | Found p Directory \<Rightarrow> Returns (False, t)
      | _ \<Rightarrow> Throws)"

text \<open>
  \<open>fs::copy_file(from, to, overwrite_existing)\<close>: an error unless \<open>from\<close> is a regular
  file; an error when \<open>to\<close> exists and is not a regular file, or is \<open>from\<close> itself, or
  cannot be opened for writing; otherwise \<open>to\<close> holds the bytes of \<open>from\<close>.
\<close>

definition fs_copy_file :: "table \<Rightarrow> path option \<Rightarrow> string \<Rightarrow> string \<Rightarrow> table call" where
  "fs_copy_file t wd src dest =
     (case resolve t wd src of
        Found ps (Regular bytes) \<Rightarrow>
          (case resolve t wd dest of
             Found pd (Regular old) \<Rightarrow>
               (if pd = ps then Throws else Returns (AList.update pd (Regular bytes) t))
           | Missing pd slash \<Rightarrow>
               (if slash then Throws else Returns (AList.update pd (Regular bytes) t))
           | _ \<Rightarrow> Throws)
      | _ \<Rightarrow> Throws)"

text \<open>
  Moving what sits at \<open>ps\<close>, with everything below it, to \<open>pd\<close>; what \<open>pd\<close> held is
  replaced.
\<close>

definition moved :: "path \<Rightarrow> path \<Rightarrow> path \<Rightarrow> path" where
  "moved ps pd q = (if take (length ps) q = ps then pd @ drop (length ps) q else q)"

definition move_tree :: "path \<Rightarrow> path \<Rightarrow> table \<Rightarrow> table" where
  "move_tree ps pd t = map (\<lambda>(q, e). (moved ps pd q, e)) (AList.delete pd t)"

text \<open>
  \<open>fs::rename\<close>, that is \<open>rename\<close> of Linux. Nothing happens when both names lead to
  the same entry. A file replaces a file, a directory replaces an empty directory; a
  directory does not move below itself. A name that ends in \<open>.\<close> or \<open>..\<close> is refused.
  The current directory follows a directory that moves; it is lost when the empty
  directory that it is gets replaced.
\<close>

definition fs_rename ::
  "table \<Rightarrow> path option \<Rightarrow> string \<Rightarrow> string \<Rightarrow> (table \<times> path option) call" where
  "fs_rename t wd src dest =
     (case resolve t wd src of
        Found ps es \<Rightarrow>
          (if dot_name src \<or> dot_name dest then Throws
           else case resolve t wd dest of
             Found pd ed \<Rightarrow>
               (if pd = ps then Returns (t, wd)
                else case (es, ed) of
                  (Regular bytes, Regular old) \<Rightarrow> Returns (move_tree ps pd t, wd)
                | (Regular bytes, Directory) \<Rightarrow> Throws
                | (Directory, Regular old) \<Rightarrow> Throws
                | (Directory, Directory) \<Rightarrow>
                    (if take (length ps) pd = ps \<or> children t pd \<noteq> [] then Throws
                     else Returns (move_tree ps pd t,
                                   if wd = Some pd then None else map_option (moved ps pd) wd)))
           | Missing pd slash \<Rightarrow>
               (case es of
                  Regular bytes \<Rightarrow>
                    (if slash then Throws else Returns (move_tree ps pd t, wd))
                | Directory \<Rightarrow>
                    (if take (length ps) pd = ps then Throws
                     else Returns (move_tree ps pd t, map_option (moved ps pd) wd)))
           | _ \<Rightarrow> Throws)
      | _ \<Rightarrow> Throws)"

text \<open>\<open>fs::current_path\<close> throws once the current directory is removed.\<close>

definition fs_current_path :: "path option \<Rightarrow> path call" where
  "fs_current_path wd = (case wd of None \<Rightarrow> Throws | Some p \<Rightarrow> Returns p)"

text \<open>The string of an absolute path, and its last component (\<open>fs::path::filename\<close>).\<close>

definition path_string :: "path \<Rightarrow> string" where
  "path_string p = (if p = [] then ''/'' else concat (map (\<lambda>c. CHR ''/'' # c) p))"

definition path_filename :: "path \<Rightarrow> string" where
  "path_filename p = (if p = [] then [] else last p)"

text \<open>
  Opening a stream on a name. For writing, the file is created or truncated; the
  stream does not open on a directory or where the name cannot be created. For
  reading, only a regular file delivers bytes.
\<close>

definition open_for_writing :: "table \<Rightarrow> path option \<Rightarrow> string \<Rightarrow> path option" where
  "open_for_writing t wd name =
     (case resolve t wd name of
        Found p (Regular old) \<Rightarrow> Some p
      | Missing p slash \<Rightarrow> (if slash then None else Some p)
      | _ \<Rightarrow> None)"

definition read_file :: "table \<Rightarrow> path option \<Rightarrow> string \<Rightarrow> string option" where
  "read_file t wd name =
     (case resolve t wd name of
        Found p (Regular bytes) \<Rightarrow> Some bytes
      | _ \<Rightarrow> None)"

text \<open>
  Where \<open>savePermissions\<close> writes: the file of the fixed name in the current directory,
  unless the process has no current directory any more or a directory has taken that
  name.
\<close>

definition store_place :: "table \<Rightarrow> path option \<Rightarrow> path option" where
  "store_place t wd =
     (case wd of
        None \<Rightarrow> None
      | Some c \<Rightarrow>
          (if entry_at t c = Some Directory \<and> entry_at t (c @ [PERM_FILE]) \<noteq> Some Directory
           then Some (c @ [PERM_FILE]) else None))"

subsection \<open>Program state and output\<close>

record state =
  fsys :: table               \<comment> \<open>the filesystem of the host\<close>
  cwd :: "path option"        \<comment> \<open>the current directory of the process, if it still has one\<close>
  permissions :: store        \<comment> \<open>the global \<open>permissions\<close>\<close>
  sudoMode :: bool            \<comment> \<open>the global \<open>sudoMode\<close>\<close>
  out :: string               \<comment> \<open>everything written to \<open>std::cout\<close>\<close>

definition currentUser :: string where
  "currentUser = ''user''"

definition ESC :: string where "ESC = [CHR 0x1B]"
definition NL :: string where "NL = [CHR 0x0A]"
definition RESET :: string where "RESET = ESC @ ''[0m''"
definition RED :: string where "RED = ESC @ ''[31m''"
definition GREEN :: string where "GREEN = ESC @ ''[32m''"
definition YELLOW :: string where "YELLOW = ESC @ ''[33m''"
definition BLUE :: string where "BLUE = ESC @ ''[34m''"

text \<open>The arrow in the messages of \<open>cp\<close> and \<open>mv\<close>, as its three UTF-8 bytes.\<close>

definition ARROW :: string where
  "ARROW = [CHR 0xE2, CHR 0x86, CHR 0x92]"

definition print :: "string \<Rightarrow> state \<Rightarrow> state" where
  "print s st = st\<lparr>out := out st @ s\<rparr>"

text \<open>
  \<open>loadPermissions\<close>: nothing is read unless the stream delivers the bytes of a regular
  file.
\<close>

definition loadPermissions :: "state \<Rightarrow> state" where
  "loadPermissions st =
     (case read_file (fsys st) (cwd st) PERM_FILE of
        Some bytes \<Rightarrow> st\<lparr>permissions := loadLoop bytes (permissions st)\<rparr>
      | None \<Rightarrow> st)"

text \<open>
  \<open>savePermissions\<close>: when the output stream opens, the file holds exactly what the
  loop streams out; when it does not, every \<open>fout << ...\<close> is without effect.
\<close>

definition savePermissions :: "state \<Rightarrow> state" where
  "savePermissions st =
     (case open_for_writing (fsys st) (cwd st) PERM_FILE of
        Some p \<Rightarrow> st\<lparr>fsys := AList.update p (Regular (saved_text (permissions st))) (fsys st)\<rparr>
      | None \<Rightarrow> st)"

subsection \<open>Display helpers\<close>

definition printPermissions :: "string \<Rightarrow> string \<Rightarrow> state \<Rightarrow> state" where
  "printPermissions perm name st =
     (let color = (if string_at perm 0 = Inr CHR ''d'' then BLUE
                   else if CHR ''w'' \<in> set perm then GREEN
                   else YELLOW)
      in print (color @ perm @ ''  '' @ name @ RESET @ NL) st)"

subsection \<open>Commands\<close>

text \<open>The body of the range-for in \<open>listFiles\<close>, over the names the iterator yields.\<close>

fun listLoop :: "string list \<Rightarrow> state \<Rightarrow> state" where
  "listLoop [] st = st"
| "listLoop (name # names) st =
     (let (perm, m) = getPermission name (permissions st)
      in listLoop names (printPermissions perm name (st\<lparr>permissions := m\<rparr>)))"

definition listFiles :: "state \<Rightarrow> failure + state" where
  "listFiles st =
     (case fs_current_path (cwd st) of
        Throws \<Rightarrow> Inl Uncaught_filesystem_error
      | Returns p \<Rightarrow> Inr (listLoop (children (fsys st) p) (print NL st)))"

definition makeDir :: "string \<Rightarrow> state \<Rightarrow> failure + state" where
  "makeDir name st =
     (case fs_create_directory (fsys st) (cwd st) name of
        Throws \<Rightarrow> Inl Uncaught_filesystem_error
      | Returns (True, t) \<Rightarrow>
          Inr (print (GREEN @ ''Directory created: '' @ name @ RESET @ NL)
                (savePermissions
                  (st\<lparr>fsys := t, permissions := map_assign name ''drwxr-xr-x'' (permissions st)\<rparr>)))
      | Returns (False, t) \<Rightarrow>
          Inr (print (RED @ ''Failed to create directory.'' @ NL @ RESET) (st\<lparr>fsys := t\<rparr>)))"

text \<open>
  None of the calls of \<open>removeDir\<close>, \<open>deleteFile\<close>, \<open>chmodFile\<close> and \<open>showPerm\<close> is
  inside a \<open>try\<close>.
\<close>

definition removeDir :: "string \<Rightarrow> state \<Rightarrow> failure + state" where
  "removeDir name st =
     (case fs_exists (fsys st) (cwd st) name of
        Throws \<Rightarrow> Inl Uncaught_filesystem_error
      | Returns False \<Rightarrow> Inr (print (RED @ ''Not found.'' @ NL @ RESET) st)
      | Returns True \<Rightarrow>
     (case fs_is_directory (fsys st) (cwd st) name of
        Throws \<Rightarrow> Inl Uncaught_filesystem_error
      | Returns False \<Rightarrow> Inr (print (RED @ ''Not a directory.'' @ NL @ RESET) st)
      | Returns True \<Rightarrow>
     (case fs_is_empty (fsys st) (cwd st) name of
        Throws \<Rightarrow> Inl Uncaught_filesystem_error
      | Returns False \<Rightarrow> Inr (print (YELLOW @ ''Directory not empty.'' @ NL @ RESET) st)
      | Returns True \<Rightarrow>
     (case fs_remove (fsys st) (cwd st) name of
        Throws \<Rightarrow> Inl Uncaught_filesystem_error
      | Returns (r, t, wd) \<Rightarrow>
          Inr (print (GREEN @ ''Directory removed.'' @ NL @ RESET)
                (savePermissions
                  (st\<lparr>fsys := t, cwd := wd,
                      permissions := map_erase name (permissions st)\<rparr>)))))))"

text \<open>
  The condition \<open>!sudoMode && getPermission(name)[pos] != flag\<close> of \<open>deleteFile\<close>,
  \<open>copyFileCmd\<close> and \<open>moveFileCmd\<close>. The right operand is evaluated only when
  \<open>sudoMode\<close> is false.
\<close>

definition check_denied :: "string \<Rightarrow> nat \<Rightarrow> char \<Rightarrow> state \<Rightarrow> failure + bool \<times> state" where
  "check_denied name pos flag st =
     (if sudoMode st then Inr (False, st)
      else
        let (perm, m) = getPermission name (permissions st)
        in case string_at perm pos of
             Inl e \<Rightarrow> Inl e
           | Inr c \<Rightarrow> Inr (c \<noteq> flag, st\<lparr>permissions := m\<rparr>))"

definition deleteFile :: "string \<Rightarrow> state \<Rightarrow> failure + state" where
  "deleteFile name st =
     (case fs_exists (fsys st) (cwd st) name of
        Throws \<Rightarrow> Inl Uncaught_filesystem_error
      | Returns False \<Rightarrow> Inr (print (RED @ ''File not found.'' @ NL @ RESET) st)
      | Returns True \<Rightarrow>
     (case check_denied name 2 CHR ''w'' st of
        Inl e \<Rightarrow> Inl e
      | Inr (True, st1) \<Rightarrow> Inr (print (RED @ ''Permission denied.'' @ NL @ RESET) st1)
      | Inr (False, st1) \<Rightarrow>
     (case fs_remove (fsys st1) (cwd st1) name of
        Throws \<Rightarrow> Inl Uncaught_filesystem_error
      | Returns (r, t, wd) \<Rightarrow>
          Inr (print (GREEN @ ''Deleted: '' @ name @ RESET @ NL)
                (savePermissions
                  (st1\<lparr>fsys := t, cwd := wd,
                       permissions := map_erase name (permissions st1)\<rparr>))))))"

text \<open>
  The lambda \<open>conv\<close> of \<open>chmodFile\<close>. \<open>c - '0'\<close> is computed in \<open>int\<close> after the
  promotion of a \<open>char\<close>, which is signed on the usual hosts; the three low bits of the
  difference are the same for an unsigned \<open>char\<close>.
\<close>

definition char_to_int :: "char \<Rightarrow> int" where
  "char_to_int c = (if of_char c < (128::int) then of_char c else of_char c - 256)"

definition conv :: "char \<Rightarrow> bool \<Rightarrow> string" where
  "conv c dir =
     (let n = char_to_int c - char_to_int CHR ''0''
      in [if dir then CHR ''d'' else CHR ''-'',
          if n AND 4 \<noteq> 0 then CHR ''r'' else CHR ''-'',
          if n AND 2 \<noteq> 0 then CHR ''w'' else CHR ''-'',
          if n AND 1 \<noteq> 0 then CHR ''x'' else CHR ''-''])"

definition chmodFile :: "string \<Rightarrow> string \<Rightarrow> state \<Rightarrow> failure + state" where
  "chmodFile name permCode st =
     (case fs_exists (fsys st) (cwd st) name of
        Throws \<Rightarrow> Inl Uncaught_filesystem_error
      | Returns False \<Rightarrow> Inr (print (RED @ ''Not found.'' @ NL @ RESET) st)
      | Returns True \<Rightarrow>
     (if length permCode \<noteq> 3
        then Inr (print (YELLOW @ ''Use format like 755.'' @ NL @ RESET) st)
      else case fs_is_directory (fsys st) (cwd st) name of
        Throws \<Rightarrow> Inl Uncaught_filesystem_error
      | Returns isDir \<Rightarrow>
          (let p = conv (permCode ! 0) isDir @ conv (permCode ! 1) False @ conv (permCode ! 2) False
           in Inr (print (GREEN @ ''Changed permission of '' @ name @ '' to '' @ p @ RESET @ NL)
                    (savePermissions (st\<lparr>permissions := map_assign name p (permissions st)\<rparr>))))))"

definition showPerm :: "string \<Rightarrow> state \<Rightarrow> failure + state" where
  "showPerm name st =
     (case fs_exists (fsys st) (cwd st) name of
        Throws \<Rightarrow> Inl Uncaught_filesystem_error
      | Returns False \<Rightarrow> Inr (print (RED @ ''Not found.'' @ NL @ RESET) st)
      | Returns True \<Rightarrow>
          (let (perm, m) = getPermission name (permissions st)
           in Inr (print (YELLOW @ name @ '': '' @ perm @ RESET @ NL) (st\<lparr>permissions := m\<rparr>))))"

text \<open>
  \<open>copyFileCmd\<close> and \<open>moveFileCmd\<close> run the filesystem call and the update of the map
  inside \<open>try { ... } catch (...)\<close>; their \<open>fs::exists\<close> stands before the \<open>try\<close>.
\<close>

definition copyFileCmd :: "string \<Rightarrow> string \<Rightarrow> state \<Rightarrow> failure + state" where
  "copyFileCmd src dest st =
     (case fs_exists (fsys st) (cwd st) src of
        Throws \<Rightarrow> Inl Uncaught_filesystem_error
      | Returns False \<Rightarrow> Inr (print (RED @ ''Source not found.'' @ NL @ RESET) st)
      | Returns True \<Rightarrow>
     (case check_denied src 1 CHR ''r'' st of
        Inl e \<Rightarrow> Inl e
      | Inr (True, st1) \<Rightarrow> Inr (print (RED @ ''Permission denied (no read).'' @ NL @ RESET) st1)
      | Inr (False, st1) \<Rightarrow>
     (case fs_copy_file (fsys st1) (cwd st1) src dest of
        Throws \<Rightarrow> Inr (print (RED @ ''Copy failed.'' @ NL @ RESET) st1)
      | Returns t \<Rightarrow>
          (let (perm, m) = getPermission src (permissions st1)
           in Inr (print (GREEN @ ''Copied '' @ src @ '' '' @ ARROW @ '' '' @ dest @ RESET @ NL)
                    (savePermissions
                      (st1\<lparr>fsys := t, permissions := map_assign dest perm m\<rparr>)))))))"

text \<open>
  In \<open>permissions[dest] = permissions[src]\<close> the right-hand side is the inserting
  subscript \<open>map_subscript\<close>, not \<open>getPermission\<close>.
\<close>

definition moveFileCmd :: "string \<Rightarrow> string \<Rightarrow> state \<Rightarrow> failure + state" where
  "moveFileCmd src dest st =
     (case fs_exists (fsys st) (cwd st) src of
        Throws \<Rightarrow> Inl Uncaught_filesystem_error
      | Returns False \<Rightarrow> Inr (print (RED @ ''Source not found.'' @ NL @ RESET) st)
      | Returns True \<Rightarrow>
     (case check_denied src 2 CHR ''w'' st of
        Inl e \<Rightarrow> Inl e
      | Inr (True, st1) \<Rightarrow> Inr (print (RED @ ''Permission denied (no write).'' @ NL @ RESET) st1)
      | Inr (False, st1) \<Rightarrow>
     (case fs_rename (fsys st1) (cwd st1) src dest of
        Throws \<Rightarrow> Inr (print (RED @ ''Move failed.'' @ NL @ RESET) st1)
      | Returns (t, wd) \<Rightarrow>
          (let (v, m) = map_subscript src (permissions st1)
           in Inr (print (GREEN @ ''Moved '' @ src @ '' '' @ ARROW @ '' '' @ dest @ RESET @ NL)
                    (savePermissions
                      (st1\<lparr>fsys := t, cwd := wd,
                           permissions := map_erase src (map_assign dest v m)\<rparr>)))))))"

definition help_text :: string where
  "help_text =
     NL @ ''=============================='' @ NL
     @ '' Available Commands (Linux-style)'' @ NL
     @ ''=============================='' @ NL
     @ ''ls                  - List directory contents with color + permissions'' @ NL
     @ ''cd <dir>            - Change directory'' @ NL
     @ ''mkdir <name>        - Create directory'' @ NL
     @ ''rmdir <name>        - Remove directory (if empty)'' @ NL
     @ ''del <file>          - Delete a file'' @ NL
     @ ''chmod <file> <perm> - Change file permissions (rwx format)'' @ NL
     @ ''perm <file>         - Show permissions'' @ NL
     @ ''cp <src> <dest>     - Copy file to destination'' @ NL
     @ ''mv <src> <dest>     - Move (rename) file or directory'' @ NL
     @ ''sudo <cmd>          - Temporary permission override'' @ NL
     @ ''help                - Show this help menu'' @ NL
     @ ''exit                - Quit program'' @ NL
     @ ''=============================='' @ NL"

definition showHelp :: "state \<Rightarrow> failure + state" where
  "showHelp st = Inr (print help_text st)"

subsection \<open>The command loop\<close>

text \<open>\<open>iss >> cmd >> arg1 >> arg2\<close>: a string whose extraction fails stays empty.\<close>

definition parse_line :: "string \<Rightarrow> string \<times> string \<times> string" where
  "parse_line input =
     (case extract_token input of
        None \<Rightarrow> ([], [], [])
      | Some (cmd, r1) \<Rightarrow>
          (case extract_token r1 of
             None \<Rightarrow> (cmd, [], [])
           | Some (arg1, r2) \<Rightarrow>
               (case extract_token r2 of
                  None \<Rightarrow> (cmd, arg1, [])
                | Some (arg2, r3) \<Rightarrow> (cmd, arg1, arg2))))"

text \<open>
  How the \<open>if\<close>/\<open>else if\<close> chain of the loop body is left: by \<open>break\<close>, by
  \<open>continue\<close>, or by falling through to the statement \<open>sudoMode = false\<close> after it.
\<close>

datatype flow = Break | Continue | Fall_through

definition falls :: "failure + state \<Rightarrow> failure + flow \<times> state" where
  "falls r = map_sum id (Pair Fall_through) r"

definition dispatch :: "string \<Rightarrow> string \<Rightarrow> string \<Rightarrow> state \<Rightarrow> failure + flow \<times> state" where
  "dispatch cmd arg1 arg2 st =
     (if cmd = ''exit'' then Inr (Break, st)
      else if cmd = ''ls'' then falls (listFiles st)
      else if cmd = ''mkdir'' then falls (makeDir arg1 st)
      else if cmd = ''rmdir'' then falls (removeDir arg1 st)
      else if cmd = ''del'' then falls (deleteFile arg1 st)
      else if cmd = ''chmod'' then falls (chmodFile arg1 arg2 st)
      else if cmd = ''perm'' then falls (showPerm arg1 st)
      else if cmd = ''cp'' then falls (copyFileCmd arg1 arg2 st)
      else if cmd = ''mv'' then falls (moveFileCmd arg1 arg2 st)
      else if cmd = ''help'' then falls (showHelp st)
      else if cmd = ''sudo''
        then Inr (Fall_through,
                  print (YELLOW @ ''Sudo mode active (for one command).'' @ RESET @ NL)
                    (st\<lparr>sudoMode := True\<rparr>))
      else if cmd = [] then Inr (Continue, st)
      else Inr (Fall_through, print (RED @ ''Unknown command.'' @ NL @ RESET) st))"

text \<open>The prompt asks for the current path, which throws when the directory is gone.\<close>

definition prompt :: "state \<Rightarrow> failure + state" where
  "prompt st =
     (case fs_current_path (cwd st) of
        Throws \<Rightarrow> Inl Uncaught_filesystem_error
      | Returns p \<Rightarrow> Inr (print (currentUser @ ''@explorer '' @ path_filename p @ '' $ '') st))"

text \<open>
  One pass through the body of \<open>while (true)\<close> on the line \<open>std::getline\<close> delivered.
  The result says whether the loop was left by \<open>break\<close>; only the fall-through path
  reaches \<open>sudoMode = false\<close>.
\<close>

definition iteration :: "string \<Rightarrow> state \<Rightarrow> failure + flow \<times> state" where
  "iteration input st =
     (case prompt st of
        Inl e \<Rightarrow> Inl e
      | Inr st0 \<Rightarrow>
          (let (cmd, arg1, arg2) = parse_line input
           in case dispatch cmd arg1 arg2 st0 of
                Inl e \<Rightarrow> Inl e
              | Inr (Break, st') \<Rightarrow> Inr (Break, st')
              | Inr (Continue, st') \<Rightarrow> Inr (Continue, st')
              | Inr (Fall_through, st') \<Rightarrow> Inr (Continue, st'\<lparr>sudoMode := False\<rparr>)))"

text \<open>
  A run of the loop on the lines standard input holds, each ended by a newline.
  \<open>Exited\<close>: \<open>exit\<close> was read. \<open>Aborted\<close>: the process ended abnormally.
  \<open>Starved\<close>: the input ended first and the prompt can be printed; from then on
  \<open>std::getline\<close> fails, \<open>input\<close> is empty and the loop repeats the prompt for
  ever, in the state given.
\<close>

datatype outcome = Exited state | Aborted failure | Starved state

fun command_loop :: "string list \<Rightarrow> state \<Rightarrow> outcome" where
  "command_loop [] st =
     (case prompt st of
        Inl e \<Rightarrow> Aborted e
      | Inr st0 \<Rightarrow> Starved st)"
| "command_loop (input # inputs) st =
     (case iteration input st of
        Inl e \<Rightarrow> Aborted e
      | Inr (Break, st') \<Rightarrow> Exited st'
      | Inr (flow, st') \<Rightarrow> command_loop inputs st')"

definition banner :: "state \<Rightarrow> failure + state" where
  "banner st =
     (case fs_current_path (cwd st) of
        Throws \<Rightarrow> Inl Uncaught_filesystem_error
      | Returns p \<Rightarrow>
          Inr (print (''=============================='' @ NL
                      @ '' FILE EXPLORER Application (Capstone Project)'' @ NL
                      @ ''=============================='' @ NL
                      @ ''Current Directory: '' @ path_string p @ NL @ NL) st))"

text \<open>
  The process starts in a directory of the host, with the globals as their
  initialisers leave them.
\<close>

definition initial :: "table \<Rightarrow> path \<Rightarrow> state" where
  "initial t p = \<lparr>fsys = t, cwd = Some p, permissions = [], sudoMode = False, out = []\<rparr>"

definition main :: "table \<Rightarrow> path \<Rightarrow> string list \<Rightarrow> outcome" where
  "main t p inputs =
     (case banner (loadPermissions (initial t p)) of
        Inl e \<Rightarrow> Aborted e
      | Inr st0 \<Rightarrow>
          (case command_loop inputs st0 of
             Exited st \<Rightarrow> Exited (print (YELLOW @ ''Exiting. Goodbye!'' @ NL @ RESET) st)
           | other \<Rightarrow> other))"

subsection \<open>The group rule of \<open>chmod\<close>, as the specification words it\<close>

text \<open>
  Written from the specification, not from the code: a 4-character group is a type flag
  followed by \<open>r\<close> when the digit value \<open>c - '0'\<close> has the bit of weight 4, \<open>w\<close> for
  the bit of weight 2, \<open>x\<close> for the bit of weight 1, and \<open>-\<close> otherwise. The digit
  value is taken of the byte as it stands.
\<close>

definition spec_group :: "bool \<Rightarrow> char \<Rightarrow> string" where
  "spec_group first_of_dir c =
     (let n = (of_char c :: int) - of_char CHR ''0''
      in [if first_of_dir then CHR ''d'' else CHR ''-'',
          if bit n 2 then CHR ''r'' else CHR ''-'',
          if bit n 1 then CHR ''w'' else CHR ''-'',
          if bit n 0 then CHR ''x'' else CHR ''-''])"

text \<open>\<open>get(name)\<close> of the specification: the value \<open>getPermission\<close> returns.\<close>

abbreviation get :: "string \<Rightarrow> state \<Rightarrow> string" where
  "get name st \<equiv> fst (getPermission name (permissions st))"

subsection \<open>What the persistence file can hold\<close>

text \<open>
  A token is what one formatted extraction can deliver: a non-empty string without
  white space. Every name a command receives is a token or empty.
\<close>

definition token :: "string \<Rightarrow> bool" where
  "token w = (w \<noteq> [] \<and> (\<forall>c\<in>set w. \<not> isspace c))"

definition token_store :: "store \<Rightarrow> bool" where
  "token_store m = (\<forall>e\<in>set m. token (fst e) \<and> token (snd e))"

subsection \<open>States used as examples\<close>

text \<open>The directory \<open>/home/u\<close>, the current one, holding the entries given.\<close>

definition home :: path where
  "home = [''home'', ''u'']"

definition at_home :: "(string \<times> entry) list \<Rightarrow> table" where
  "at_home es = ([''home''], Directory) # (home, Directory) # map (\<lambda>(n, e). (home @ [n], e)) es"

definition locked :: state where
  "locked = \<lparr>fsys = at_home [(''src.txt'', Regular ''data'')], cwd = Some home,
             permissions = [(''src.txt'', ''--w---------'')], sudoMode = False, out = []\<rparr>"

definition read_only :: state where
  "read_only = \<lparr>fsys = at_home [(''a.txt'', Regular ''data'')], cwd = Some home,
                permissions = [(''a.txt'', ''-r---r---r--'')], sudoMode = False, out = []\<rparr>"


definition fresh_dir :: state where
  "fresh_dir = \<lparr>fsys = at_home [(''docs'', Directory)], cwd = Some home,
                permissions = [(''docs'', ''drwxr-xr-x'')], sudoMode = False, out = []\<rparr>"

definition dotted :: state where
  "dotted = \<lparr>fsys = at_home [(''docs'', Directory)], cwd = Some home,
             permissions = [(''docs/.'', ''drwx-r-x-r-x'')], sudoMode = False, out = []\<rparr>"

definition blank :: state where
  "blank = \<lparr>fsys = at_home [(''src.txt'', Regular ''hello'')], cwd = Some home,
            permissions = [(''src.txt'', [])], sudoMode = False, out = []\<rparr>"

definition plain :: state where
  "plain = \<lparr>fsys = at_home [(''a.txt'', Regular ''hello'')], cwd = Some home,
            permissions = [], sudoMode = False, out = []\<rparr>"

section \<open>Properties of the permission map\<close>

lemma map_of_map_assign: "map_of (map_assign k v m) = (map_of m)(k \<mapsto> v)"
  by (induction m) (auto simp: fun_eq_iff)

lemma map_of_map_erase: "map_of (map_erase k m) = (map_of m)(k := None)"
  by (induction m) (auto simp: map_erase_def fun_eq_iff)

lemma keys_map_assign: "fst ` set (map_assign k v m) = insert k (fst ` set m)"
proof -
  have "dom (map_of (map_assign k v m)) = insert k (dom (map_of m))"
    by (simp add: map_of_map_assign)
  then show ?thesis by (simp add: dom_map_of_conv_image_fst)
qed


text \<open>Assignment and erasure keep the keys strictly ascending.\<close>

lemma ordered_map_assign: "ordered_store m \<Longrightarrow> ordered_store (map_assign k v m)"
  unfolding ordered_store_def
proof (induction m)
  case Nil
  then show ?case by simp
next
  case (Cons e m)
  obtain k' v' where e: "e = (k', v')" by (cases e)
  from Cons.prems have tl: "sorted_wrt (<) (map fst m)" and hd: "\<forall>x\<in>fst ` set m. k' < x"
    by (auto simp: e)
  show ?case
  proof (cases "k = k'")
    case True
    with Cons.prems show ?thesis by (simp add: e)
  next
    case False
    show ?thesis
    proof (cases "k < k'")
      case True
      with Cons.prems hd show ?thesis by (auto simp: e)
    next
      case ge: False
      with False have "k' < k" by simp
      with hd have "\<forall>x\<in>fst ` set (map_assign k v m). k' < x"
        by (simp add: keys_map_assign)
      with Cons.IH [OF tl] False ge show ?thesis
        by (simp add: e)
    qed
  qed
qed

lemma ordered_map_erase: "ordered_store m \<Longrightarrow> ordered_store (map_erase k m)"
  unfolding ordered_store_def map_erase_def
  by (induction m) auto

lemma getPermission_store: "snd (getPermission name m) = m"
  by (simp add: getPermission_def map_count_def map_subscript_def split: option.splits)

lemma getPermission_value:
  "fst (getPermission name m) = (case map_of m name of None \<Rightarrow> fallback | Some v \<Rightarrow> v)"
  by (simp add: getPermission_def map_count_def map_subscript_def split: option.splits)

text \<open>
  Claim C7. For a name that is no key of the permission map, \<open>getPermission\<close> returns
  exactly the literal \<open>-rw-r--r--\<close>. It is a total function, and for every name,
  present or absent, the map it leaves behind is the map it was given: the inserting
  subscript is reached only behind \<open>count\<close>.
\<close>

theorem getPermission_absent:
  "snd (getPermission name m) = m \<and>
   (name \<notin> fst ` set m \<longrightarrow> fst (getPermission name m) = ''-rw-r--r--'')"
proof -
  have "name \<notin> fst ` set m \<Longrightarrow> map_of m name = None"
    by (simp add: map_of_eq_None_iff)
  then show ?thesis
    by (auto simp: getPermission_store getPermission_value fallback_def)
qed

theorem getPermission_absent_witness:
  "snd (getPermission ''b.txt'' [(''a.txt'', ''-r---r---r--'')]) = [(''a.txt'', ''-r---r---r--'')]
   \<and> ''b.txt'' \<notin> fst ` set [(''a.txt'', ''-r---r---r--'')]
   \<and> fst (getPermission ''b.txt'' [(''a.txt'', ''-r---r---r--'')]) = ''-rw-r--r--''"
  using getPermission_absent [of "''b.txt''" "[(''a.txt'', ''-r---r---r--'')]"]
  by simp

section \<open>Resolving names\<close>

lemma walk_Found:
  assumes "walk t cur cs = Found p e" and "entry_at t cur = Some Directory"
  shows "entry_at t p = Some e"
  using assms
proof (induction cs arbitrary: cur)
  case Nil
  then show ?case by simp
next
  case (Cons c cs)
  show ?case
  proof (cases "c = [] \<or> c = ''.''")
    case True
    with Cons show ?thesis by auto
  next
    case False
    note plain = this
    show ?thesis
    proof (cases "c = ''..''")
      case True
      with Cons plain show ?thesis by (auto split: if_splits)
    next
      case False
      with Cons.prems(1) plain have step: "\<not> NAME_MAX < length c"
        by (auto split: if_splits)
      show ?thesis
      proof (cases "entry_at t (cur @ [c])")
        case None
        with Cons.prems(1) plain False step show ?thesis by (auto split: if_splits)
      next
        case (Some e')
        show ?thesis
        proof (cases e')
          case (Regular bytes)
          with Some Cons.prems(1) plain False step show ?thesis by (auto split: if_splits)
        next
          case Directory
          with Some Cons.prems(1) plain False step have "walk t (cur @ [c]) cs = Found p e"
            by simp
          then show ?thesis using Some Directory by (auto intro: Cons.IH)
        qed
      qed
    qed
  qed
qed

lemma resolve_Found:
  assumes "resolve t wd name = Found p e"
  shows "entry_at t p = Some e"
proof -
  from assms obtain start where "entry_at t start = Some Directory"
    and "walk t start (split_path (c_str name)) = Found p e"
    by (auto simp: resolve_def split: if_splits option.splits)
  then show ?thesis by (auto intro: walk_Found)
qed

lemma walk_Missing:
  assumes "walk t cur cs = Missing p slash"
  shows "p \<noteq> [] \<and> entry_at t p = None"
  using assms
proof (induction cs arbitrary: cur)
  case Nil
  then show ?case by simp
next
  case (Cons c cs)
  show ?case
  proof (cases "c = [] \<or> c = ''.''")
    case True
    with Cons show ?thesis by auto
  next
    case False
    note plain = this
    show ?thesis
    proof (cases "c = ''..''")
      case True
      with Cons plain show ?thesis by (auto split: if_splits)
    next
      case False
      with Cons.prems(1) plain have step: "\<not> NAME_MAX < length c"
        by (auto split: if_splits)
      show ?thesis
      proof (cases "entry_at t (cur @ [c])")
        case None
        with Cons.prems(1) plain False step show ?thesis by (auto split: if_splits)
      next
        case (Some e')
        show ?thesis
        proof (cases e')
          case (Regular bytes)
          with Some Cons.prems(1) plain False step show ?thesis by (auto split: if_splits)
        next
          case Directory
          with Some Cons.prems(1) plain False step have "walk t (cur @ [c]) cs = Missing p slash"
            by simp
          then show ?thesis by (rule Cons.IH)
        qed
      qed
    qed
  qed
qed

lemma resolve_Missing:
  assumes "resolve t wd name = Missing p slash"
  shows "p \<noteq> [] \<and> entry_at t p = None"
proof -
  from assms obtain start where "walk t start (split_path (c_str name)) = Missing p slash"
    by (auto simp: resolve_def split: if_splits option.splits)
  then show ?thesis by (rule walk_Missing)
qed

lemma resolve_Regular_nonroot:
  assumes "resolve t wd name = Found p (Regular bytes)"
  shows "p \<noteq> []"
  using resolve_Found [OF assms] by (auto simp: entry_at_def)

text \<open>What \<open>fs::exists\<close> and \<open>fs::is_directory\<close> say of a name that resolves.\<close>

lemma fs_exists_True:
  "fs_exists t wd name = Returns True \<longleftrightarrow> (\<exists>p e. resolve t wd name = Found p e)"
  by (auto simp: fs_exists_def split: lookup.splits)

lemma fs_is_directory_Found:
  "resolve t wd name = Found p e \<Longrightarrow> fs_is_directory t wd name = Returns (e = Directory)"
  by (cases e) (simp_all add: fs_is_directory_def)

section \<open>Saving and the permission test\<close>

lemma check_denied_sudo: "sudoMode st \<Longrightarrow> check_denied name pos flag st = Inr (False, st)"
  by (simp add: check_denied_def)

lemma check_denied_read:
  "\<not> sudoMode st \<Longrightarrow>
   check_denied name pos flag st
     = map_sum id (\<lambda>c. (c \<noteq> flag, st)) (string_at (get name st) pos)"
  using getPermission_store [of name "permissions st"]
  by (simp add: check_denied_def split_beta split: sum.splits)

lemma check_denied_char:
  "\<not> sudoMode st \<Longrightarrow> pos < length (get name st) \<Longrightarrow>
   check_denied name pos flag st = Inr (get name st ! pos \<noteq> flag, st)"
  by (simp add: check_denied_read string_at_def)

lemma check_denied_passes:
  assumes "sudoMode st \<or> (2 < length (get X st) \<and> get X st ! 2 = CHR ''w'')"
  shows "check_denied X 2 CHR ''w'' st = Inr (False, st)"
proof (cases "sudoMode st")
  case True
  then show ?thesis by (rule check_denied_sudo)
next
  case False
  with assms show ?thesis by (simp add: check_denied_char)
qed

lemma check_denied_state: "check_denied name pos flag st = Inr (b, st1) \<Longrightarrow> st1 = st"
  using getPermission_store [of name "permissions st"]
  by (auto simp: check_denied_def split_beta split: if_splits sum.splits)

lemma savePermissions_permissions: "permissions (savePermissions st) = permissions st"
  by (simp add: savePermissions_def split: option.splits)

lemma savePermissions_fields:
  "cwd (savePermissions st) = cwd st" "sudoMode (savePermissions st) = sudoMode st"
  "out (savePermissions st) = out st"
  by (simp_all add: savePermissions_def split: option.splits)

lemma open_for_writing_nonroot: "open_for_writing t wd name = Some p \<Longrightarrow> p \<noteq> []"
  by (auto simp: open_for_writing_def split: lookup.splits entry.splits if_splits
      dest: resolve_Regular_nonroot resolve_Missing)

text \<open>
  After \<open>savePermissions\<close> the file the stream opened on holds the text of the map, and
  every other place is as before.
\<close>

lemma savePermissions_entry:
  "entry_at (fsys (savePermissions st)) q
     = (if open_for_writing (fsys st) (cwd st) PERM_FILE = Some q
        then Some (Regular (saved_text (permissions st)))
        else entry_at (fsys st) q)"
proof (cases "open_for_writing (fsys st) (cwd st) PERM_FILE")
  case None
  then show ?thesis by (simp add: savePermissions_def)
next
  case (Some p)
  then have "p \<noteq> []" by (rule open_for_writing_nonroot)
  with Some show ?thesis
    by (auto simp: savePermissions_def entry_at_def update_conv')
qed

section \<open>The permission string of \<open>chmod\<close>\<close>

lemma and_mask_bits:
  fixes n :: int
  shows "(n AND 4 \<noteq> 0) = bit n 2" and "(n AND 2 \<noteq> 0) = bit n 1" and "(n AND 1 \<noteq> 0) = bit n 0"
proof -
  have "(n AND 2 ^ 2 = 0) = (\<not> bit n 2)" by (rule and_exp_eq_0_iff_not_bit)
  then show "(n AND 4 \<noteq> 0) = bit n 2" by simp
  have "(n AND 2 ^ 1 = 0) = (\<not> bit n 1)" by (rule and_exp_eq_0_iff_not_bit)
  then show "(n AND 2 \<noteq> 0) = bit n 1" by simp
  have "(n AND 2 ^ 0 = 0) = (\<not> bit n 0)" by (rule and_exp_eq_0_iff_not_bit)
  then show "(n AND 1 \<noteq> 0) = bit n 0" by simp
qed

lemma low_bits_shift:
  fixes n :: int
  shows "bit (n - 256) 2 = bit n 2" and "bit (n - 256) 1 = bit n 1" and "bit (n - 256) 0 = bit n 0"
proof -
  have "(n - 256) div 4 = n div 4 - 64" "(n - 256) div 2 = n div 2 - 128" by presburger+
  then show "bit (n - 256) 2 = bit n 2" "bit (n - 256) 1 = bit n 1" "bit (n - 256) 0 = bit n 0"
    by (simp_all add: bit_iff_odd)
qed

lemma conv_spec_group: "conv c d = spec_group d c"
proof -
  define n :: int where "n = of_char c - of_char CHR ''0''"
  define n' where "n' = char_to_int c - char_to_int CHR ''0''"
  have "n' = n \<or> n' = n - 256"
    by (simp add: n_def n'_def char_to_int_def)
  then have "bit n' 2 = bit n 2 \<and> bit n' 1 = bit n 1 \<and> bit n' 0 = bit n 0"
    using low_bits_shift [of n] by presburger
  then have "conv c d =
      [if d then CHR ''d'' else CHR ''-'',
       if bit n 2 then CHR ''r'' else CHR ''-'',
       if bit n 1 then CHR ''w'' else CHR ''-'',
       if bit n 0 then CHR ''x'' else CHR ''-'']"
    unfolding conv_def Let_def and_mask_bits n'_def [symmetric] by simp
  then show ?thesis
    unfolding spec_group_def Let_def n_def [symmetric] .
qed

text \<open>
  Claim C6. For an existing name and a code of three characters, \<open>chmod\<close> stores under
  that name a string of 12 characters: one group per code character, in order, each
  group as the specification words it (\<open>spec_group\<close>), with the flag \<open>d\<close> only in the
  first group and only for a directory. For the code \<open>755\<close> on something that is not a
  directory the groups are \<open>-rwx\<close>, \<open>-r-x\<close>, \<open>-r-x\<close>.
\<close>

theorem chmodFile_groups:
  assumes "fs_exists (fsys st) (cwd st) X = Returns True" and "length code = 3"
  shows "\<exists>st' p. chmodFile X code st = Inr st' \<and> map_of (permissions st') X = Some p
           \<and> length p = 12
           \<and> p = spec_group (fs_is_directory (fsys st) (cwd st) X = Returns True) (code ! 0)
                 @ spec_group False (code ! 1) @ spec_group False (code ! 2)
           \<and> (code = ''755'' \<and> fs_is_directory (fsys st) (cwd st) X \<noteq> Returns True
                \<longrightarrow> p = ''-rwx'' @ ''-r-x'' @ ''-r-x'')"
proof -
  from assms(1) obtain q e where "resolve (fsys st) (cwd st) X = Found q e"
    by (auto simp: fs_exists_True)
  then have dir: "fs_is_directory (fsys st) (cwd st) X = Returns (e = Directory)"
    by (rule fs_is_directory_Found)
  let ?d = "e = Directory"
  let ?p = "conv (code ! 0) ?d @ conv (code ! 1) False @ conv (code ! 2) False"
  let ?st' = "print (GREEN @ ''Changed permission of '' @ X @ '' to '' @ ?p @ RESET @ NL)
                 (savePermissions (st\<lparr>permissions := map_assign X ?p (permissions st)\<rparr>))"
  from assms dir have run: "chmodFile X code st = Inr ?st'"
    by (simp add: chmodFile_def Let_def)
  have stored: "map_of (permissions ?st') X = Some ?p"
    by (simp add: print_def savePermissions_permissions map_of_map_assign)
  have len: "length ?p = 12"
    by (simp add: conv_def Let_def)
  have inst: "code = ''755'' \<and> \<not> ?d \<longrightarrow> ?p = ''-rwx'' @ ''-r-x'' @ ''-r-x''"
    by (simp add: conv_def char_to_int_def)
  from run stored len inst show ?thesis
    unfolding dir by (simp only: conv_spec_group call.inject simp_thms) blast
qed

theorem chmodFile_groups_witness:
  "fs_exists (fsys plain) (cwd plain) ''a.txt'' = Returns True \<and> length ''755'' = 3 \<and>
   (\<exists>st'. chmodFile ''a.txt'' ''755'' plain = Inr st'
      \<and> map_of (permissions st') ''a.txt'' = Some ''-rwx-r-x-r-x'')"
proof -
  have h1: "fs_exists (fsys plain) (cwd plain) ''a.txt'' = Returns True" by code_simp
  have h2: "length ''755'' = 3" by simp
  have nd: "fs_is_directory (fsys plain) (cwd plain) ''a.txt'' = Returns False" by code_simp
  from chmodFile_groups [OF h1 h2] nd h1 show ?thesis
    by auto
qed

section \<open>Where the map is saved\<close>

lemma split_path_PERM_FILE: "split_path PERM_FILE = [PERM_FILE]"
  by (simp add: PERM_FILE_def)

lemma resolve_PERM_FILE:
  "resolve t wd PERM_FILE =
     (case wd of
        None \<Rightarrow> No_entry
      | Some c \<Rightarrow>
          (if entry_at t c = Some Directory
           then (case entry_at t (c @ [PERM_FILE]) of
                   None \<Rightarrow> Missing (c @ [PERM_FILE]) False
                 | Some e \<Rightarrow> Found (c @ [PERM_FILE]) e)
           else No_entry))"
proof -
  have c: "c_str PERM_FILE = PERM_FILE"
    by (simp add: PERM_FILE_def c_str_def)
  have n: "PERM_FILE \<noteq> []" "hd PERM_FILE \<noteq> CHR ''/''" "\<not> PATH_MAX \<le> length PERM_FILE"
    "PERM_FILE \<noteq> ''.''" "PERM_FILE \<noteq> ''..''" "\<not> NAME_MAX < length PERM_FILE"
    by (simp_all add: PERM_FILE_def PATH_MAX_def NAME_MAX_def)
  show ?thesis
    by (simp add: resolve_def c split_path_PERM_FILE n split: option.splits entry.splits)
qed

lemma open_for_writing_PERM_FILE: "open_for_writing t wd PERM_FILE = store_place t wd"
  by (auto simp: open_for_writing_def store_place_def resolve_PERM_FILE
      split: option.splits entry.splits)

lemma read_file_PERM_FILE:
  "store_place t wd = Some q \<Longrightarrow> entry_at t q = Some (Regular bytes)
   \<Longrightarrow> read_file t wd PERM_FILE = Some bytes"
  by (auto simp: read_file_def store_place_def resolve_PERM_FILE
      split: option.splits entry.splits if_splits)


section \<open>Copying without read permission\<close>

text \<open>
  Claim C8, as stated, covers every stored permission whose second character is not
  \<open>r\<close>, the empty string among them: a string the program itself stores (\<open>mv\<close> of a
  file without an entry). There \<open>getPermission(src)[1]\<close> reads beyond the terminator of
  the string, which is undefined behaviour and no report of a denial.
\<close>

theorem copyFileCmd_empty_permission:
  "fs_exists (fsys blank) (cwd blank) ''src.txt'' = Returns True \<and> sudoMode blank = False
   \<and> get ''src.txt'' blank = []
   \<and> copyFileCmd ''src.txt'' ''dest.txt'' blank = Inl Undefined_behaviour"
  by code_simp

text \<open>The state \<open>blank\<close> is what \<open>mv a.txt src.txt\<close> leaves of a file without an entry.\<close>

lemma blank_reached:
  "(case command_loop [''mv a.txt src.txt''] plain of
      Starved st \<Rightarrow>
        permissions st = permissions blank \<and> cwd st = cwd blank \<and> sudoMode st = sudoMode blank
        \<and> entry_at (fsys st) (home @ [''src.txt'']) = entry_at (fsys blank) (home @ [''src.txt''])
    | _ \<Rightarrow> False)"
  by code_simp

text \<open>
  Claim C8, amended. When the source exists, \<open>sudoMode\<close> is false, \<open>get(SRC)\<close> is not
  the empty string and its second character is not \<open>r\<close> (a string of one character,
  which has the terminator there, included), \<open>cp SRC DEST\<close> prints the
  permission-denied line and returns the state it was given with nothing else changed:
  the filesystem (so \<open>DEST\<close> is not created and the persistence file keeps its bytes)
  and the permission map are the same.
\<close>

theorem copyFileCmd_denied:
  assumes "fs_exists (fsys st) (cwd st) src = Returns True" and "\<not> sudoMode st"
    and "get src st \<noteq> []"
    and "\<not> (1 < length (get src st) \<and> get src st ! 1 = CHR ''r'')"
  shows "copyFileCmd src dest st
         = Inr (st\<lparr>out := out st @ RED @ ''Permission denied (no read).'' @ NL @ RESET\<rparr>)"
proof -
  from assms(3,4) have "\<exists>c. string_at (get src st) 1 = Inr c \<and> c \<noteq> CHR ''r''"
    by (cases "get src st") (auto simp: string_at_def)
  with assms(2) have "check_denied src 1 CHR ''r'' st = Inr (True, st)"
    by (auto simp: check_denied_read)
  with assms(1) show ?thesis
    by (simp add: copyFileCmd_def print_def)
qed

theorem copyFileCmd_denied_witness:
  "fs_exists (fsys locked) (cwd locked) ''src.txt'' = Returns True \<and> \<not> sudoMode locked
   \<and> get ''src.txt'' locked \<noteq> []
   \<and> \<not> (1 < length (get ''src.txt'' locked) \<and> get ''src.txt'' locked ! 1 = CHR ''r'')
   \<and> copyFileCmd ''src.txt'' ''dest.txt'' locked
       = Inr (locked\<lparr>out := RED @ ''Permission denied (no read).'' @ NL @ RESET\<rparr>)
   \<and> fs_exists (fsys locked) (cwd locked) ''dest.txt'' = Returns False"
proof -
  have h1: "fs_exists (fsys locked) (cwd locked) ''src.txt'' = Returns True" by code_simp
  have h2: "\<not> sudoMode locked" by (simp add: locked_def)
  have g: "get ''src.txt'' locked = ''--w---------''"
    by (simp add: locked_def getPermission_def map_count_def map_subscript_def)
  have h3: "get ''src.txt'' locked \<noteq> []" by (simp add: g)
  have h4: "\<not> (1 < length (get ''src.txt'' locked) \<and> get ''src.txt'' locked ! 1 = CHR ''r'')"
    by (simp add: g)
  have h5: "fs_exists (fsys locked) (cwd locked) ''dest.txt'' = Returns False" by code_simp
  have "out locked = []" by (simp add: locked_def)
  with copyFileCmd_denied [OF h1 h2 h3 h4, of "''dest.txt''"] h1 h2 h3 h4 h5 show ?thesis
    by simp
qed

section \<open>Deleting\<close>



















lemma dotted_reached:
  "(case command_loop [''chmod docs/. 755''] (fresh_dir\<lparr>permissions := []\<rparr>) of
      Starved st \<Rightarrow>
        permissions st = permissions dotted \<and> cwd st = cwd dotted \<and> sudoMode st = sudoMode dotted
        \<and> entry_at (fsys st) (home @ [''docs'']) = Some Directory
        \<and> children (fsys st) (home @ [''docs'']) = []
    | _ \<Rightarrow> False)"
  by code_simp



section \<open>Saving and loading again\<close>

text \<open>
  The file \<open>savePermissions\<close> writes is read back by \<open>loadPermissions\<close> entry for
  entry, as long as every name and every permission string in the map is a token.
\<close>

lemma extract_token_word:
  assumes ws: "\<forall>c\<in>set ws. isspace c" and w: "token w" and rest: "rest = [] \<or> isspace (hd rest)"
  shows "extract_token (ws @ w @ rest) = Some (w, rest)"
proof -
  from w obtain c cs where wc: "w = c # cs" and c: "\<not> isspace c" and cs: "\<forall>x\<in>set cs. \<not> isspace x"
    by (cases w) (auto simp: token_def)
  from ws c have skip: "dropWhile isspace (ws @ w @ rest) = w @ rest"
    by (simp add: wc dropWhile_append)
  from rest have stop: "takeWhile (\<lambda>c. \<not> isspace c) rest = []"
    by (cases rest) auto
  from rest have keep: "dropWhile (\<lambda>c. \<not> isspace c) rest = rest"
    by (cases rest) auto
  from w have "takeWhile (\<lambda>c. \<not> isspace c) (w @ rest) = w"
    by (simp add: token_def takeWhile_append stop)
  moreover from w have "dropWhile (\<lambda>c. \<not> isspace c) (w @ rest) = rest"
    by (simp add: token_def dropWhile_append keep)
  moreover have "w @ rest \<noteq> []"
    by (simp add: wc)
  ultimately show ?thesis
    unfolding extract_token_def Let_def skip by simp
qed

lemma extract_token_blank:
  assumes "\<forall>c\<in>set ws. isspace c"
  shows "extract_token ws = None"
  using assms by (simp add: extract_token_def)

lemma isspace_simps: "isspace CHR '' ''" "isspace CHR 0x0A"
  by (simp_all add: isspace_def)

lemma loadLoop_saved_text:
  assumes "token_store m" and "\<forall>c\<in>set ws. isspace c"
  shows "loadLoop (ws @ saved_text m) acc = fold (\<lambda>e. map_assign (fst e) (snd e)) m acc"
  using assms
proof (induction m arbitrary: ws acc)
  case Nil
  then have "extract_token (ws @ saved_text []) = None"
    by (simp add: saved_text_def extract_token_blank)
  then show ?case by (subst loadLoop.simps) simp
next
  case (Cons e m)
  obtain k v where e: "e = (k, v)" by (cases e)
  from Cons.prems(1) have k: "token k" and v: "token v" and m: "token_store m"
    by (simp_all add: token_store_def e)
  let ?r1 = "CHR '' '' # v @ CHR 0x0A # saved_text m"
  let ?r2 = "CHR 0x0A # saved_text m"
  have input: "ws @ saved_text (e # m) = ws @ k @ ?r1"
    by (simp add: saved_text_def e)
  have first: "extract_token (ws @ k @ ?r1) = Some (k, ?r1)"
    by (rule extract_token_word [OF Cons.prems(2) k]) (simp add: isspace_simps)
  have "extract_token ([CHR '' ''] @ v @ ?r2) = Some (v, ?r2)"
    by (rule extract_token_word [OF _ v]) (simp_all add: isspace_simps)
  then have second: "extract_token ?r1 = Some (v, ?r2)" by simp
  have "loadLoop (ws @ saved_text (e # m)) acc = loadLoop ?r2 (map_assign k v acc)"
    by (subst loadLoop.simps) (simp add: input first second)
  also have "\<dots> = loadLoop ([CHR 0x0A] @ saved_text m) (map_assign k v acc)" by simp
  also have "\<dots> = fold (\<lambda>e. map_assign (fst e) (snd e)) m (map_assign k v acc)"
    by (rule Cons.IH [OF m]) (simp add: isspace_simps)
  finally show ?case by (simp add: e)
qed

lemma map_assign_last:
  assumes "\<forall>x\<in>fst ` set acc. x < k"
  shows "map_assign k v acc = acc @ [(k, v)]"
  using assms by (induction acc) auto

lemma fold_map_assign_ordered:
  assumes "ordered_store (acc @ m)"
  shows "fold (\<lambda>e. map_assign (fst e) (snd e)) m acc = acc @ m"
  using assms
proof (induction m arbitrary: acc)
  case Nil
  then show ?case by simp
next
  case (Cons e m)
  from Cons.prems have "\<forall>x\<in>fst ` set acc. x < fst e"
    by (auto simp: ordered_store_def sorted_wrt_append)
  then have "map_assign (fst e) (snd e) acc = acc @ [e]"
    by (simp add: map_assign_last)
  moreover from Cons.prems have "ordered_store ((acc @ [e]) @ m)" by simp
  ultimately show ?case using Cons.IH [of "acc @ [e]"] by simp
qed

lemma load_saved_text:
  assumes "ordered_store m" and "token_store m"
  shows "loadLoop (saved_text m) [] = m"
  using loadLoop_saved_text [OF assms(2), of "[]" "[]"] fold_map_assign_ordered [of "[]" m] assms(1)
  by simp

lemma save_then_load:
  assumes "ordered_store (permissions st)" and "token_store (permissions st)"
    and "cwd st = Some c" and "store_place (fsys st) (cwd st) = Some q"
  shows "permissions (loadPermissions (initial (fsys (savePermissions st)) c)) = permissions st"
proof -
  let ?t = "fsys (savePermissions st)"
  from assms(3,4) have q: "q = c @ [PERM_FILE]" and dir: "entry_at (fsys st) c = Some Directory"
    by (auto simp: store_place_def split: if_splits)
  have saved: "entry_at ?t q = Some (Regular (saved_text (permissions st)))"
    using assms(4) by (simp add: savePermissions_entry open_for_writing_PERM_FILE)
  from q have "c \<noteq> q" by simp
  with dir assms(4) have "entry_at ?t c = Some Directory"
    by (simp add: savePermissions_entry open_for_writing_PERM_FILE)
  with saved q have "store_place ?t (Some c) = Some q"
    by (simp add: store_place_def)
  then have "read_file ?t (Some c) PERM_FILE = Some (saved_text (permissions st))"
    using saved by (rule read_file_PERM_FILE)
  then show ?thesis
    by (simp add: loadPermissions_def initial_def load_saved_text [OF assms(1,2)])
qed

section \<open>What the commands do to the map\<close>

lemma ordered_map_subscript: "ordered_store m \<Longrightarrow> ordered_store (snd (map_subscript k m))"
  by (simp add: map_subscript_def ordered_map_assign split: option.splits)

lemma ordered_loadLoop: "ordered_store m \<Longrightarrow> ordered_store (loadLoop inp m)"
proof (induction inp m rule: loadLoop.induct)
  case (1 inp m)
  show ?case
    using "1.prems" "1.IH"
    by (subst loadLoop.simps) (auto simp: ordered_map_assign split: option.splits)
qed

lemma print_permissions: "permissions (print s st) = permissions st"
  by (simp add: print_def)

lemma listLoop_permissions: "permissions (listLoop names st) = permissions st"
proof (induction names arbitrary: st)
  case Nil
  then show ?case by simp
next
  case (Cons name names)
  obtain perm m where g: "getPermission name (permissions st) = (perm, m)"
    by (cases "getPermission name (permissions st)")
  with getPermission_store [of name "permissions st"] have "m = permissions st" by simp
  with g Cons.IH show ?case
    by (simp add: printPermissions_def Let_def print_permissions)
qed

text \<open>What a command leaves in the map, case by case.\<close>

lemma listFiles_permissions:
  "listFiles st = Inr st' \<Longrightarrow> permissions st' = permissions st"
  by (auto simp: listFiles_def listLoop_permissions print_permissions split: call.splits)

lemma showPerm_permissions:
  "showPerm name st = Inr st' \<Longrightarrow> permissions st' = permissions st"
  using getPermission_store [of name "permissions st"]
  by (auto simp: showPerm_def print_permissions split_beta split: call.splits bool.splits)

lemma makeDir_permissions:
  assumes "makeDir name st = Inr st'"
  shows "permissions st' = permissions st
         \<or> (name \<noteq> [] \<and> permissions st' = map_assign name ''drwxr-xr-x'' (permissions st))"
proof (cases "name = []")
  case True
  then have "fs_create_directory (fsys st) (cwd st) name = Throws"
    by (simp add: fs_create_directory_def resolve_def c_str_def)
  with assms show ?thesis by (simp add: makeDir_def)
next
  case False
  with assms show ?thesis
    by (auto simp: makeDir_def print_permissions savePermissions_permissions
        split: call.splits bool.splits prod.splits)
qed

lemma removeDir_permissions:
  assumes "removeDir name st = Inr st'"
  shows "permissions st' = permissions st \<or> permissions st' = map_erase name (permissions st)"
  using assms
  by (auto simp: removeDir_def print_permissions savePermissions_permissions
      split: call.splits bool.splits prod.splits)

lemma deleteFile_permissions:
  assumes "deleteFile name st = Inr st'"
  shows "permissions st' = permissions st \<or> permissions st' = map_erase name (permissions st)"
  using assms
  by (auto simp: deleteFile_def print_permissions savePermissions_permissions
      split: call.splits bool.splits prod.splits sum.splits dest!: check_denied_state)

lemma fs_exists_empty_name: "fs_exists t wd [] = Returns False"
  by (simp add: fs_exists_def resolve_def c_str_def)

lemma chmodFile_permissions:
  assumes "chmodFile name code st = Inr st'"
  shows "permissions st' = permissions st
         \<or> (name \<noteq> [] \<and> (\<exists>d. permissions st'
               = map_assign name (conv (code ! 0) d @ conv (code ! 1) False @ conv (code ! 2) False)
                   (permissions st)))"
proof (cases "name = []")
  case True
  with assms show ?thesis
    by (auto simp: chmodFile_def fs_exists_empty_name print_permissions)
next
  case False
  with assms show ?thesis
    by (auto simp: chmodFile_def Let_def print_permissions savePermissions_permissions
        split: call.splits bool.splits if_splits)
qed

lemma fs_copy_file_empty_name: "fs_copy_file t wd src [] = Throws"
  by (simp add: fs_copy_file_def resolve_def c_str_def split: lookup.splits entry.splits)

lemma copyFileCmd_permissions:
  assumes "copyFileCmd src dest st = Inr st'"
  shows "permissions st' = permissions st
         \<or> (dest \<noteq> [] \<and> permissions st' = map_assign dest (get src st) (permissions st))"
proof -
  obtain perm m where g: "getPermission src (permissions st) = (perm, m)"
    by (cases "getPermission src (permissions st)")
  with getPermission_store [of src "permissions st"] have m: "m = permissions st" by simp
  from g have perm: "perm = get src st" by simp
  show ?thesis
  proof (cases "dest = []")
    case True
    with assms show ?thesis
      by (auto simp: copyFileCmd_def fs_copy_file_empty_name print_permissions
          split: call.splits bool.splits sum.splits dest!: check_denied_state)
  next
    case False
    from assms show ?thesis
      unfolding copyFileCmd_def
      by (auto simp: print_permissions savePermissions_permissions g m False
          split: call.splits bool.splits sum.splits dest!: check_denied_state)
  qed
qed

lemma fs_rename_empty_name: "fs_rename t wd src [] = Throws"
  by (simp add: fs_rename_def dot_name_def dotty_def c_str_def split: lookup.splits)

lemma moveFileCmd_permissions:
  assumes "moveFileCmd src dest st = Inr st'"
  shows "permissions st' = permissions st
         \<or> (dest \<noteq> [] \<and> permissions st'
               = map_erase src (map_assign dest (fst (map_subscript src (permissions st)))
                   (snd (map_subscript src (permissions st)))))"
proof (cases "dest = []")
  case True
  with assms show ?thesis
    by (auto simp: moveFileCmd_def fs_rename_empty_name print_permissions
        split: call.splits bool.splits sum.splits dest!: check_denied_state)
next
  case False
  from assms show ?thesis
    unfolding moveFileCmd_def
    by (auto simp: print_permissions savePermissions_permissions split_beta False
        split: call.splits bool.splits sum.splits dest!: check_denied_state)
qed

lemma extract_token_token:
  assumes "extract_token inp = Some (w, rest)"
  shows "token w"
proof -
  let ?r = "dropWhile isspace inp"
  from assms have ne: "?r \<noteq> []" and w: "w = takeWhile (\<lambda>c. \<not> isspace c) ?r"
    by (simp_all add: extract_token_def Let_def split: if_splits)
  from ne have "\<not> isspace (hd ?r)" using hd_dropWhile by blast
  with ne have "w \<noteq> []" by (cases ?r) (simp_all add: w)
  moreover have "\<forall>c\<in>set w. \<not> isspace c"
    unfolding w by (auto dest: set_takeWhileD)
  ultimately show ?thesis by (simp add: token_def)
qed

lemma set_map_assign: "set (map_assign k v m) \<subseteq> insert (k, v) (set m)"
  by (induction m) (auto split: if_splits)

lemma token_map_assign:
  "token k \<Longrightarrow> token v \<Longrightarrow> token_store m \<Longrightarrow> token_store (map_assign k v m)"
  using set_map_assign [of k v m] by (auto simp: token_store_def)

lemma token_map_erase: "token_store m \<Longrightarrow> token_store (map_erase k m)"
  by (simp add: token_store_def map_erase_def)

lemma token_loadLoop: "token_store m \<Longrightarrow> token_store (loadLoop inp m)"
proof (induction inp m rule: loadLoop.induct)
  case (1 inp m)
  show ?case
  proof (cases "extract_token inp")
    case None
    with "1.prems" show ?thesis by (subst loadLoop.simps) simp
  next
    case (Some fr)
    obtain name rest where fr: "fr = (name, rest)" by (cases fr)
    show ?thesis
    proof (cases "extract_token rest")
      case None
      with Some fr "1.prems" show ?thesis by (subst loadLoop.simps) simp
    next
      case pr: (Some pr)
      obtain perm rest' where p: "pr = (perm, rest')" by (cases pr)
      from Some fr have "token name" by (auto dest: extract_token_token)
      moreover from pr p have "token perm" by (auto dest: extract_token_token)
      ultimately have "token_store (map_assign name perm m)"
        using "1.prems" by (simp add: token_map_assign)
      then have "token_store (loadLoop rest' (map_assign name perm m))"
        using "1.IH" [OF Some fr [symmetric] pr p [symmetric]] by simp
      with Some fr pr p show ?thesis by (subst loadLoop.simps) simp
    qed
  qed
qed

lemma parse_line_tokens:
  assumes "parse_line input = (cmd, arg1, arg2)"
  shows "(arg1 = [] \<or> token arg1) \<and> (arg2 = [] \<or> token arg2)"
proof -
  have tok: "\<And>inp w r. extract_token inp = Some (w, r) \<Longrightarrow> token w"
    by (rule extract_token_token)
  from assms show ?thesis
    unfolding parse_line_def
    by (simp split: option.splits prod.splits) (metis tok)+
qed

lemma token_get:
  assumes "token_store m"
  shows "token (fst (getPermission name m))"
proof (cases "map_of m name")
  case None
  then show ?thesis
    by (auto simp: getPermission_value fallback_def token_def isspace_def)
next
  case (Some v)
  then have "(name, v) \<in> set m" by (rule map_of_SomeD)
  with assms have "token v" by (auto simp: token_store_def)
  with Some show ?thesis by (simp add: getPermission_value)
qed

lemma token_conv: "token (conv c dir)"
  by (auto simp: conv_def Let_def token_def isspace_def)

lemma token_append: "token a \<Longrightarrow> token b \<Longrightarrow> token (a @ b)"
  by (auto simp: token_def)



lemma falls_Inr: "falls r = Inr (flow, st') \<Longrightarrow> r = Inr st'"
  by (cases r) (simp_all add: falls_def)

lemma falls_Inl: "falls r = Inl e \<Longrightarrow> r = Inl e"
  by (cases r) (simp_all add: falls_def)

lemma falls_flow: "falls r = Inr (flow, st') \<Longrightarrow> flow = Fall_through"
  by (cases r) (auto simp: falls_def)

text \<open>
  What a pass of the loop can do to the map: leave it, erase the entry of its first
  argument, or assign to an argument that is not empty.
\<close>

lemma dispatch_permissions:
  assumes "dispatch cmd arg1 arg2 st = Inr (flow, st')"
  shows "permissions st' = permissions st
       \<or> permissions st' = map_erase arg1 (permissions st)
       \<or> (arg1 \<noteq> [] \<and> permissions st' = map_assign arg1 ''drwxr-xr-x'' (permissions st))
       \<or> (arg1 \<noteq> [] \<and> (\<exists>d. permissions st'
             = map_assign arg1 (conv (arg2 ! 0) d @ conv (arg2 ! 1) False @ conv (arg2 ! 2) False)
                 (permissions st)))
       \<or> (arg2 \<noteq> [] \<and> permissions st' = map_assign arg2 (get arg1 st) (permissions st))
       \<or> (cmd = ''mv'' \<and> arg2 \<noteq> [] \<and> permissions st'
             = map_erase arg1 (map_assign arg2 (fst (map_subscript arg1 (permissions st)))
                 (snd (map_subscript arg1 (permissions st)))))"
proof -
  consider "cmd = ''ls''" | "cmd = ''mkdir''" | "cmd = ''rmdir''" | "cmd = ''del''"
    | "cmd = ''chmod''" | "cmd = ''perm''" | "cmd = ''cp''" | "cmd = ''mv''"
    | "cmd \<notin> {''ls'', ''mkdir'', ''rmdir'', ''del'', ''chmod'', ''perm'', ''cp'', ''mv''}"
    by auto
  then show ?thesis
  proof cases
    case 1
    with assms have "listFiles st = Inr st'" by (auto simp: dispatch_def dest: falls_Inr)
    then show ?thesis by (simp add: listFiles_permissions)
  next
    case 2
    with assms have "makeDir arg1 st = Inr st'" by (auto simp: dispatch_def dest: falls_Inr)
    then show ?thesis using makeDir_permissions by blast
  next
    case 3
    with assms have "removeDir arg1 st = Inr st'" by (auto simp: dispatch_def dest: falls_Inr)
    then show ?thesis using removeDir_permissions by blast
  next
    case 4
    with assms have "deleteFile arg1 st = Inr st'" by (auto simp: dispatch_def dest: falls_Inr)
    then show ?thesis using deleteFile_permissions by blast
  next
    case 5
    with assms have "chmodFile arg1 arg2 st = Inr st'" by (auto simp: dispatch_def dest: falls_Inr)
    then show ?thesis using chmodFile_permissions by blast
  next
    case 6
    with assms have "showPerm arg1 st = Inr st'" by (auto simp: dispatch_def dest: falls_Inr)
    then show ?thesis by (simp add: showPerm_permissions)
  next
    case 7
    with assms have "copyFileCmd arg1 arg2 st = Inr st'" by (auto simp: dispatch_def dest: falls_Inr)
    then show ?thesis using copyFileCmd_permissions by blast
  next
    case 8
    with assms have "moveFileCmd arg1 arg2 st = Inr st'" by (auto simp: dispatch_def dest: falls_Inr)
    then show ?thesis using moveFileCmd_permissions 8 by blast
  next
    case 9
    with assms have "permissions st' = permissions st"
      by (auto simp: dispatch_def showHelp_def print_def split: if_splits dest!: falls_Inr)
    then show ?thesis by simp
  qed
qed

lemma dispatch_ordered:
  assumes "dispatch cmd arg1 arg2 st = Inr (flow, st')" and "ordered_store (permissions st)"
  shows "ordered_store (permissions st')"
  using dispatch_permissions [OF assms(1)] assms(2)
    ordered_map_subscript [OF assms(2), of arg1]
  by (auto simp: ordered_map_assign ordered_map_erase)

lemma prompt_fields:
  assumes "prompt st = Inr st0"
  shows "permissions st0 = permissions st" "sudoMode st0 = sudoMode st"
    "fsys st0 = fsys st" "cwd st0 = cwd st"
  using assms by (auto simp: prompt_def print_def split: call.splits)

lemma iteration_cases:
  assumes "iteration input st = Inr (flow, st')"
  obtains st0 cmd arg1 arg2 f s where "prompt st = Inr st0"
    and "parse_line input = (cmd, arg1, arg2)"
    and "dispatch cmd arg1 arg2 st0 = Inr (f, s)"
    and "permissions st' = permissions s" and "fsys st' = fsys s" and "cwd st' = cwd s"
    and "f = Fall_through \<longrightarrow> \<not> sudoMode st' \<and> flow = Continue"
    and "f \<noteq> Fall_through \<longrightarrow> st' = s \<and> flow = f"
proof -
  obtain cmd arg1 arg2 where p: "parse_line input = (cmd, arg1, arg2)"
    by (cases "parse_line input") auto
  from assms obtain st0 where st0: "prompt st = Inr st0"
    by (cases "prompt st") (auto simp: iteration_def)
  from assms st0 p obtain f s where d: "dispatch cmd arg1 arg2 st0 = Inr (f, s)"
    by (cases "dispatch cmd arg1 arg2 st0") (auto simp: iteration_def)
  from assms st0 p d have "permissions st' = permissions s" "fsys st' = fsys s" "cwd st' = cwd s"
    "f = Fall_through \<longrightarrow> \<not> sudoMode st' \<and> flow = Continue"
    "f \<noteq> Fall_through \<longrightarrow> st' = s \<and> flow = f"
    by (cases f; auto simp: iteration_def)+
  with st0 p d show ?thesis by (rule that)
qed

lemma iteration_ordered:
  assumes "iteration input st = Inr (flow, st')" and "ordered_store (permissions st)"
  shows "ordered_store (permissions st')"
proof -
  from assms(1) obtain st0 cmd arg1 arg2 f s where "prompt st = Inr st0"
    and "dispatch cmd arg1 arg2 st0 = Inr (f, s)" and "permissions st' = permissions s"
    by (rule iteration_cases)
  with assms(2) show ?thesis
    using dispatch_ordered [of cmd arg1 arg2 st0 f s] by (simp add: prompt_fields)
qed

lemma command_loop_induct:
  assumes run: "command_loop inputs st = Starved st' \<or> command_loop inputs st = Exited st'"
    and base: "P st"
    and step: "\<And>input s flow s'. P s \<Longrightarrow> iteration input s = Inr (flow, s') \<Longrightarrow> P s'"
  shows "P st'"
  using run base
proof (induction inputs arbitrary: st)
  case Nil
  then show ?case by (simp split: sum.splits)
next
  case (Cons input inputs)
  show ?case
  proof (cases "iteration input st")
    case (Inl e)
    with Cons.prems(1) show ?thesis by simp
  next
    case (Inr r)
    obtain f s where r: "r = (f, s)" by (cases r)
    from Inr r Cons.prems(2) have s: "P s" using step by blast
    show ?thesis
    proof (cases "f = Break")
      case True
      with Inr r Cons.prems(1) s show ?thesis by auto
    next
      case False
      with Inr r Cons.prems(1)
      have "command_loop inputs s = Starved st' \<or> command_loop inputs s = Exited st'"
        by (cases f) simp_all
      then show ?thesis using s by (rule Cons.IH)
    qed
  qed
qed

lemma banner_fields:
  assumes "banner st = Inr st0"
  shows "permissions st0 = permissions st" "sudoMode st0 = sudoMode st"
    "fsys st0 = fsys st" "cwd st0 = cwd st"
  using assms by (auto simp: banner_def print_def split: call.splits)

lemma loadPermissions_fields:
  "sudoMode (loadPermissions st) = sudoMode st" "fsys (loadPermissions st) = fsys st"
  "cwd (loadPermissions st) = cwd st"
  by (simp_all add: loadPermissions_def split: option.splits)

lemma start_ordered:
  assumes "banner (loadPermissions (initial t c)) = Inr st0"
  shows "ordered_store (permissions st0)"
proof -
  have "ordered_store []" by (simp add: ordered_store_def)
  then have "ordered_store (permissions (loadPermissions (initial t c)))"
    by (auto simp: loadPermissions_def initial_def ordered_loadLoop split: option.splits)
  with assms show ?thesis by (simp add: banner_fields)
qed

lemma run_ordered:
  assumes "banner (loadPermissions (initial t c)) = Inr st0"
    and "command_loop inputs st0 = Starved st \<or> command_loop inputs st0 = Exited st"
  shows "ordered_store (permissions st)"
  using assms(2) start_ordered [OF assms(1)] iteration_ordered
  by (rule command_loop_induct)

lemma run_round_trip:
  assumes "banner (loadPermissions (initial t c)) = Inr st0"
    and "command_loop inputs st0 = Starved st"
    and "token_store (permissions st)"
    and "cwd st = Some c'" and "store_place (fsys st) (cwd st) = Some q"
  shows "permissions (loadPermissions (initial (fsys (savePermissions st)) c')) = permissions st"
proof -
  from assms(1,2) have "ordered_store (permissions st)"
    using run_ordered by blast
  then show ?thesis using assms(3,4,5) by (rule save_then_load)
qed

text \<open>The one exception: \<open>mv\<close> stores a token only for a source that has an entry.\<close>

lemma dispatch_tokens:
  assumes run: "dispatch cmd arg1 arg2 st = Inr (flow, st')"
    and args: "arg1 = [] \<or> token arg1" "arg2 = [] \<or> token arg2"
    and tok: "token_store (permissions st)"
    and listed: "cmd = ''mv'' \<longrightarrow> arg1 \<in> fst ` set (permissions st)"
  shows "token_store (permissions st')"
proof -
  have dir: "token ''drwxr-xr-x''" by (auto simp: token_def isspace_def)
  have chm: "token (conv a d @ conv b False @ conv c False)" for a b c d
    by (intro token_append token_conv)
  have got: "token (get arg1 st)" using tok by (rule token_get)
  have mv: "token_store (map_erase arg1 (map_assign arg2 (fst (map_subscript arg1 (permissions st)))
                 (snd (map_subscript arg1 (permissions st)))))"
    if "cmd = ''mv''" "arg2 \<noteq> []"
  proof -
    from that listed obtain v where v: "map_of (permissions st) arg1 = Some v"
      by (metis domD dom_map_of_conv_image_fst)
    then have s: "map_subscript arg1 (permissions st) = (v, permissions st)"
      by (simp add: map_subscript_def)
    from v have "(arg1, v) \<in> set (permissions st)" by (rule map_of_SomeD)
    with tok have "token v" by (auto simp: token_store_def)
    moreover from that args have "token arg2" by simp
    ultimately show ?thesis
      using tok by (simp add: s token_map_assign token_map_erase)
  qed
  from dispatch_permissions [OF run] show ?thesis
    using args tok dir chm got mv
    by (auto simp: token_map_assign token_map_erase)
qed

lemma iteration_tokens:
  assumes "iteration input st = Inr (flow, st')" and "token_store (permissions st)"
    and "fst (parse_line input) = ''mv'' \<longrightarrow>
           fst (snd (parse_line input)) \<in> fst ` set (permissions st)"
  shows "token_store (permissions st')"
proof -
  from assms(1) obtain st0 cmd arg1 arg2 f s where p0: "prompt st = Inr st0"
    and p: "parse_line input = (cmd, arg1, arg2)"
    and d: "dispatch cmd arg1 arg2 st0 = Inr (f, s)" and e: "permissions st' = permissions s"
    by (rule iteration_cases)
  from p have args: "arg1 = [] \<or> token arg1" "arg2 = [] \<or> token arg2"
    using parse_line_tokens by blast+
  from assms(2,3) p p0 have "token_store (permissions st0)"
    and "cmd = ''mv'' \<longrightarrow> arg1 \<in> fst ` set (permissions st0)"
    by (simp_all add: prompt_fields)
  with d args have "token_store (permissions s)" by (rule dispatch_tokens)
  with e show ?thesis by simp
qed

lemma start_tokens:
  assumes "banner (loadPermissions (initial t c)) = Inr st0"
  shows "token_store (permissions st0)"
proof -
  have "token_store []" by (simp add: token_store_def)
  then have "token_store (loadLoop bytes [])" for bytes by (rule token_loadLoop)
  then have "token_store (permissions (loadPermissions (initial t c)))"
    by (simp add: loadPermissions_def initial_def token_store_def split: option.splits)
  with assms show ?thesis by (simp add: banner_fields)
qed


text \<open>
  Claim C4, evaluated where it fails. \<open>mv a.txt b.txt\<close> on a file without an entry
  stores the empty string for \<open>b.txt\<close> and saves the line \<open>b.txt \<close>; a fresh load of
  that file finds a name and no permission, and the map it builds is empty.
\<close>

theorem mv_breaks_round_trip:
  "(case main (at_home [(''a.txt'', Regular ''hello'')]) home [''mv a.txt b.txt'', ''exit''] of
      Exited st \<Rightarrow>
        permissions st = [(''b.txt'', [])]
        \<and> entry_at (fsys st) (home @ [PERM_FILE]) = Some (Regular (''b.txt '' @ NL))
        \<and> permissions (loadPermissions (initial (fsys st) home)) = []
    | _ \<Rightarrow> False)"
  by code_simp

section \<open>Moving\<close>

lemma map_subscript_value:
  "fst (map_subscript k m) = (case map_of m k of None \<Rightarrow> [] | Some v \<Rightarrow> v)"
  by (simp add: map_subscript_def split: option.splits)

lemma map_subscript_store:
  "map_of (snd (map_subscript k m)) = (case map_of m k of None \<Rightarrow> (map_of m)(k \<mapsto> []) | Some v \<Rightarrow> map_of m)"
  by (simp add: map_subscript_def map_of_map_assign split: option.splits)

lemma moveFileCmd_moves:
  assumes "fs_exists (fsys st) (cwd st) src = Returns True"
    and "sudoMode st \<or> (2 < length (get src st) \<and> get src st ! 2 = CHR ''w'')"
    and "fs_rename (fsys st) (cwd st) src dest = Returns (t, wd)"
  shows "\<exists>st'. moveFileCmd src dest st = Inr st'
           \<and> cwd st' = wd
           \<and> (\<forall>q. entry_at (fsys st') q =
                 (if store_place t wd = Some q then Some (Regular (saved_text (permissions st')))
                  else entry_at t q))
           \<and> map_of (permissions st')
               = ((map_of (permissions st))
                    (dest \<mapsto> (case map_of (permissions st) src of None \<Rightarrow> [] | Some v \<Rightarrow> v)))
                    (src := None)"
proof -
  obtain v m where vm: "map_subscript src (permissions st) = (v, m)"
    by (cases "map_subscript src (permissions st)")
  define st' where "st' = print (GREEN @ ''Moved '' @ src @ '' '' @ ARROW @ '' '' @ dest @ RESET @ NL)
                (savePermissions (st\<lparr>fsys := t, cwd := wd,
                    permissions := map_erase src (map_assign dest v m)\<rparr>))"
  from assms(1) check_denied_passes [OF assms(2)] assms(3) vm
  have run: "moveFileCmd src dest st = Inr st'"
    by (simp add: moveFileCmd_def st'_def)
  from vm have v: "v = (case map_of (permissions st) src of None \<Rightarrow> [] | Some v \<Rightarrow> v)"
    using map_subscript_value [of src "permissions st"] by simp
  from vm have m: "(map_of m)(src := None) = (map_of (permissions st))(src := None)"
    using map_subscript_store [of src "permissions st"]
    by (auto split: option.splits)
  have perms: "permissions st' = map_erase src (map_assign dest v m)"
    by (simp add: st'_def print_def savePermissions_permissions)
  have "map_of (permissions st') = ((map_of m)(dest \<mapsto> v))(src := None)"
    by (simp add: perms map_of_map_erase map_of_map_assign)
  also have "\<dots> = (((map_of m)(src := None))(dest \<mapsto> v))(src := None)"
    by (auto simp: fun_eq_iff)
  also have "\<dots> = ((map_of (permissions st))(dest \<mapsto> v))(src := None)"
    unfolding m by (auto simp: fun_eq_iff)
  finally have store: "map_of (permissions st') = ((map_of (permissions st))(dest \<mapsto> v))(src := None)" .
  have wd: "cwd st' = wd"
    by (simp add: st'_def print_def savePermissions_fields)
  have "\<forall>q. entry_at (fsys st') q =
                 (if store_place t wd = Some q then Some (Regular (saved_text (permissions st')))
                  else entry_at t q)"
    unfolding perms
    by (simp add: st'_def print_def savePermissions_entry open_for_writing_PERM_FILE)
  with run store wd show ?thesis unfolding v [symmetric] by blast
qed

text \<open>When the source has an entry and the target is another name, claim C2 holds.\<close>

lemma moveFileCmd_listed:
  assumes "fs_exists (fsys st) (cwd st) src = Returns True"
    and "sudoMode st \<or> (2 < length (get src st) \<and> get src st ! 2 = CHR ''w'')"
    and "fs_rename (fsys st) (cwd st) src dest = Returns (t, wd)"
    and "src \<in> fst ` set (permissions st)" and "dest \<noteq> src"
  shows "\<exists>st'. moveFileCmd src dest st = Inr st'
           \<and> map_of (permissions st') dest = Some (get src st)
           \<and> src \<notin> fst ` set (permissions st')"
proof -
  from assms(4) obtain v where v: "map_of (permissions st) src = Some v"
    by (metis domD dom_map_of_conv_image_fst)
  from moveFileCmd_moves [OF assms(1-3)] obtain st' where
    run: "moveFileCmd src dest st = Inr st'"
    and store: "map_of (permissions st') = ((map_of (permissions st))(dest \<mapsto> v))(src := None)"
    by (auto simp: v)
  from store assms(5) have "map_of (permissions st') dest = Some v" by simp
  moreover from v have "get src st = v" by (simp add: getPermission_value)
  moreover from store have "map_of (permissions st') src = None" by simp
  then have "src \<notin> fst ` set (permissions st')" by (simp add: map_of_eq_None_iff)
  ultimately show ?thesis using run by blast
qed

text \<open>
  Claim C2, evaluated where it fails. The file \<open>a.txt\<close> exists and has no entry, so
  \<open>get\<close> gives the fallback literal and the write test passes; after
  \<open>mv a.txt b.txt\<close> the map holds the empty string for \<open>b.txt\<close>, not the literal.
\<close>

theorem moveFileCmd_unlisted_source:
  "fs_exists (fsys plain) (cwd plain) ''a.txt'' = Returns True \<and> \<not> sudoMode plain
   \<and> get ''a.txt'' plain = ''-rw-r--r--''
   \<and> map_sum id permissions (moveFileCmd ''a.txt'' ''b.txt'' plain) = Inr [(''b.txt'', [])]"
  by code_simp

section \<open>Abnormal termination\<close>

text \<open>
  Claim C3, evaluated where it fails. \<open>del\<close> on a directory that has entries,
  \<open>mkdir\<close> on the name of an existing regular file and \<open>mkdir\<close> without a name each
  end the run with a filesystem error nobody catches; the \<open>exit\<close> that follows is
  never read.
\<close>

theorem uncaught_filesystem_errors:
  "main ((home @ [''d'', ''x''], Regular []) # at_home [(''d'', Directory)]) home
        [''del d'', ''exit'']
     = Aborted Uncaught_filesystem_error
   \<and> main (at_home [(''a.txt'', Regular ''hello'')]) home [''mkdir a.txt'', ''exit'']
     = Aborted Uncaught_filesystem_error
   \<and> main (at_home []) home [''mkdir'', ''exit''] = Aborted Uncaught_filesystem_error"
  by code_simp

text \<open>
  More of the same kind: a name with a final \<open>.\<close> in \<open>rmdir\<close> and in \<open>del\<close>, a name of
  300 characters in any command that asks \<open>fs::exists\<close>, and the prompt after the
  current directory has been removed.
\<close>

lemma more_uncaught_filesystem_errors:
  "main (at_home [(''docs'', Directory)]) home [''rmdir docs/.'', ''exit'']
     = Aborted Uncaught_filesystem_error
   \<and> main (at_home [(''docs'', Directory)]) home [''del docs/.'', ''exit'']
     = Aborted Uncaught_filesystem_error
   \<and> main (at_home []) home [''perm '' @ replicate 300 CHR ''a'', ''exit'']
     = Aborted Uncaught_filesystem_error
   \<and> main (at_home []) home [''cp '' @ replicate 300 CHR ''a'' @ '' b'', ''exit'']
     = Aborted Uncaught_filesystem_error
   \<and> main (at_home []) home [''rmdir ../u'', ''exit'']
     = Aborted Uncaught_filesystem_error"
  by code_simp

text \<open>Without a current directory no pass gets as far as reading its command.\<close>

lemma lost_directory_aborts:
  "cwd st = None \<Longrightarrow> iteration input st = Inl Uncaught_filesystem_error"
  by (simp add: iteration_def prompt_def fs_current_path_def)

lemma lost_directory_ends_run:
  "cwd st = None \<Longrightarrow> command_loop inputs st = Aborted Uncaught_filesystem_error"
  by (cases inputs) (simp_all add: iteration_def prompt_def fs_current_path_def)

section \<open>Sudo\<close>

lemma dispatch_flow:
  assumes "dispatch cmd arg1 arg2 st = Inr (flow, st')" and "flow \<noteq> Fall_through"
  shows "st' = st \<and> (flow = Break \<and> cmd = ''exit'' \<or> flow = Continue \<and> cmd = [])"
  using assms
  by (auto simp: dispatch_def split: if_splits dest: falls_flow)

text \<open>Whatever was dispatched, a pass that fell through ends with \<open>sudoMode\<close> false.\<close>

lemma iteration_resets:
  assumes "iteration input st = Inr (flow, st')" and "fst (parse_line input) \<notin> {[], ''exit''}"
  shows "flow = Continue \<and> \<not> sudoMode st'"
proof -
  from assms(1) obtain st0 cmd arg1 arg2 f s where
    p: "parse_line input = (cmd, arg1, arg2)"
    and d: "dispatch cmd arg1 arg2 st0 = Inr (f, s)"
    and ft: "f = Fall_through \<longrightarrow> \<not> sudoMode st' \<and> flow = Continue"
    by (rule iteration_cases)
  from p assms(2) have "cmd \<noteq> []" "cmd \<noteq> ''exit''" by auto
  with d have "f = Fall_through"
    using dispatch_flow [of cmd arg1 arg2 st0 f s] by auto
  with ft show ?thesis by simp
qed

lemma iteration_sudoMode:
  assumes "iteration input st = Inr (flow, st')" and "\<not> sudoMode st"
  shows "\<not> sudoMode st'"
proof -
  from assms(1) obtain st0 cmd arg1 arg2 f s where p0: "prompt st = Inr st0"
    and d: "dispatch cmd arg1 arg2 st0 = Inr (f, s)"
    and ft: "f = Fall_through \<longrightarrow> \<not> sudoMode st' \<and> flow = Continue"
    and nf: "f \<noteq> Fall_through \<longrightarrow> st' = s \<and> flow = f"
    by (rule iteration_cases)
  show ?thesis
  proof (cases "f = Fall_through")
    case True
    with ft show ?thesis by simp
  next
    case False
    with d have "s = st0" using dispatch_flow by blast
    with False nf p0 assms(2) show ?thesis by (simp add: prompt_fields)
  qed
qed

text \<open>At every head of the loop \<open>sudoMode\<close> is false, so no command is ever dispatched with it true.\<close>

lemma command_loop_sudoMode:
  assumes "\<not> sudoMode st"
    and "command_loop inputs st = Starved st' \<or> command_loop inputs st = Exited st'"
  shows "\<not> sudoMode st'"
  using assms(2) assms(1)
proof (rule command_loop_induct)
  show "\<not> sudoMode s'" if "\<not> sudoMode s" "iteration input s = Inr (flow, s')" for input s flow s'
    using that(2,1) by (rule iteration_sudoMode)
qed

lemma start_sudoMode:
  assumes "banner (loadPermissions (initial t c)) = Inr st0"
  shows "\<not> sudoMode st0"
  using assms by (simp add: banner_fields loadPermissions_fields initial_def)

text \<open>
  Claim C1, evaluated where it fails. After \<open>chmod a.txt 444\<close> the file has no write
  flag. The pass that reads \<open>sudo\<close> sets \<open>sudoMode\<close> and falls through to
  \<open>sudoMode = false\<close>, so the \<open>del a.txt\<close> entered next is dispatched with
  \<open>sudoMode\<close> false: it prints the permission-denied line and the file stays.
\<close>

theorem sudo_has_no_effect:
  "(case main (at_home [(''a.txt'', Regular ''hello'')]) home
           [''chmod a.txt 444'', ''sudo'', ''del a.txt'', ''exit''] of
      Exited st \<Rightarrow>
        fs_exists (fsys st) (cwd st) ''a.txt'' = Returns True
        \<and> permissions st = [(''a.txt'', ''-r---r---r--'')]
    | _ \<Rightarrow> False)
   \<and> (case command_loop [''sudo''] read_only of
         Starved st \<Rightarrow>
           \<not> sudoMode st
           \<and> iteration ''del a.txt'' st
               = Inr (Continue,
                      st\<lparr>out := out st @ currentUser @ ''@explorer u $ ''
                                 @ RED @ ''Permission denied.'' @ NL @ RESET\<rparr>)
       | _ \<Rightarrow> False)"
  by code_simp

text \<open>
  Claim C9, as stated, has the pass of an empty command reset \<open>sudoMode\<close>. The
  \<open>continue\<close> of that pass jumps over the statement \<open>sudoMode = false\<close>: a pass that
  starts with the flag true ends with the flag true.
\<close>

theorem empty_command_keeps_sudoMode:
  "sudoMode (plain\<lparr>sudoMode := True\<rparr>) \<and> fst (parse_line []) = []
   \<and> iteration [] (plain\<lparr>sudoMode := True\<rparr>)
       = Inr (Continue, plain\<lparr>sudoMode := True, out := ''user@explorer u $ ''\<rparr>)"
  by code_simp

text \<open>
  Claim C9, amended. A pass whose command token is empty dispatches nothing and goes
  round the loop again by \<open>continue\<close>, without reaching the reset: it prints the prompt
  and leaves everything else, \<open>sudoMode\<close> included, as it was. (When the current
  directory is gone the prompt cannot be printed and the pass ends the run.)
\<close>

theorem empty_command_skips:
  assumes "fst (parse_line input) = []"
  shows "iteration input st =
           (case cwd st of
              None \<Rightarrow> Inl Uncaught_filesystem_error
            | Some p \<Rightarrow>
                Inr (Continue,
                     st\<lparr>out := out st @ currentUser @ ''@explorer '' @ path_filename p @ '' $ ''\<rparr>))"
  using assms
  by (cases "parse_line input")
    (simp add: iteration_def prompt_def fs_current_path_def dispatch_def print_def
      split: option.splits)

theorem empty_command_skips_witness:
  "fst (parse_line ''  '') = []
   \<and> iteration ''  '' (plain\<lparr>sudoMode := True\<rparr>)
       = Inr (Continue, plain\<lparr>sudoMode := True, out := ''user@explorer u $ ''\<rparr>)
   \<and> iteration ''  '' plain = Inr (Continue, plain\<lparr>out := ''user@explorer u $ ''\<rparr>)"
proof -
  have h: "fst (parse_line ''  '') = []" by code_simp
  have c: "cwd plain = Some home" "out plain = []" "path_filename home = ''u''"
    by (simp_all add: plain_def home_def path_filename_def)
  from empty_command_skips [OF h, of "plain\<lparr>sudoMode := True\<rparr>"]
    empty_command_skips [OF h, of plain] h c
  show ?thesis by (simp add: currentUser_def)
qed

end
